theory Spec2Isabelle
  imports Main
begin

unbundle bit_operations_syntax

section \<open>The line editor of echo-repl (readline.c)\<close>

text \<open>
  The embedding follows \<^verbatim>\<open>readline.c\<close> function by function. Bytes (\<^verbatim>\<open>char\<close>) are
  \<^typ>\<open>char\<close>; sizes, indices and the cursor offset are \<^typ>\<open>nat\<close> (the C code mixes
  \<^verbatim>\<open>int cursor_pos\<close> with \<^verbatim>\<open>size_t num_chars\<close>; the two agree while lines are
  shorter than \<^verbatim>\<open>INT_MAX\<close> bytes, \<^verbatim>\<open>cursor_pos\<close> is only decremented when it is
  not 0, and \<^verbatim>\<open>history_index\<close> is only decremented when it is not 0); key codes are
  \<^typ>\<open>int\<close>. The process-wide statics, the heap and the terminal device are the fields of
  one record that every function takes and returns.
\<close>

subsection \<open>Key codes\<close>

definition NUL :: char where "NUL = CHR 0x00"
definition ESC :: char where "ESC = CHR 0x1B"

definition KEY_ENTER :: int where "KEY_ENTER = 13"
definition KEY_ESC :: int where "KEY_ESC = 27"
definition KEY_BACKSPACE :: int where "KEY_BACKSPACE = 127"
definition KEY_ARROW_UP :: int where "KEY_ARROW_UP = 1000"
definition KEY_ARROW_DOWN :: int where "KEY_ARROW_DOWN = 1001"
definition KEY_ARROW_RIGHT :: int where "KEY_ARROW_RIGHT = 1002"
definition KEY_ARROW_LEFT :: int where "KEY_ARROW_LEFT = 1003"
definition KEY_DELETE :: int where "KEY_DELETE = 1004"
definition KEY_HOME :: int where "KEY_HOME = 1005"
definition KEY_END :: int where "KEY_END = 1006"
definition KEY_PAGE_UP :: int where "KEY_PAGE_UP = 1007"
definition KEY_PAGE_DOWN :: int where "KEY_PAGE_DOWN = 1008"

text \<open>\<^verbatim>\<open>#define CTRL_KEY(k) (k & 0x1f)\<close>\<close>

definition CTRL_KEY :: "char \<Rightarrow> int" where
  "CTRL_KEY k = of_char k AND 0x1f"

text \<open>
  \<^verbatim>\<open>return c;\<close> in \<^verbatim>\<open>read_key\<close> converts a \<^verbatim>\<open>char\<close> to \<^verbatim>\<open>int\<close>; \<^verbatim>\<open>char\<close> is
  signed on the platforms the program was built for, so bytes from 128 on become negative.
  \<^verbatim>\<open>current_buf[cursor_pos] = key\<close> and \<^verbatim>\<open>write(STDOUT_FILENO, &key, 1)\<close> take the low
  byte of the key.
\<close>

definition int_of_char :: "char \<Rightarrow> int" where
  "int_of_char c = (if of_char c < (128::int) then of_char c else of_char c - 256)"

definition low_byte :: "int \<Rightarrow> char" where
  "low_byte k = char_of (k mod 256)"

text \<open>
  \<^verbatim>\<open>isprint\<close> of \<^verbatim>\<open><ctype.h>\<close> in the "C" locale: the bytes 0x20 to 0x7E. The key
  codes from 1000 on and negative values are not printable.
\<close>

definition isprint :: "int \<Rightarrow> bool" where
  "isprint k \<longleftrightarrow> 32 \<le> k \<and> k \<le> 126"

datatype ReadLineResult = RL_SUCCESS | RL_EOF | RL_SIGINT

subsection \<open>The process and its terminal\<close>

text \<open>
  One \<^verbatim>\<open>read(STDIN_FILENO, &c, 1)\<close> in raw mode with \<^verbatim>\<open>VMIN = 0, VTIME = 1\<close> returns
  1 with a byte, 0 after the 100ms timeout, or -1 with \<^verbatim>\<open>errno\<close> set to \<^verbatim>\<open>EAGAIN\<close> or
  to something else.
\<close>

datatype rd = Byte char | Timeout | Eagain | Eio

text \<open>
  \<^item> \<open>original_state\<close>, \<open>raw_mode_enabled\<close>, \<open>history\<close>, \<open>history_index\<close>: the statics of
    \<^verbatim>\<open>readline.c\<close>. \<open>history\<close> is the vector of \<^verbatim>\<open>char *\<close>: a list of addresses.
  \<^item> \<open>heap\<close>: the blocks returned by \<^verbatim>\<open>malloc\<close>; an address is an index into this list
    and a block is the list of its bytes, whose length is the size that was allocated.
  \<^item> \<open>tty\<close>: the attributes the terminal device has now; \<open>out\<close>: the bytes written to it.
  \<^item> \<open>reads\<close>: what the coming calls of \<^verbatim>\<open>read\<close> return, in order; once the list is used
    up no byte arrives any more and every \<^verbatim>\<open>read\<close> times out.
  \<^item> \<open>writes\<close>, \<open>tcgets\<close>, \<open>tcsets\<close>, \<open>mallocs\<close>: whether the coming calls of
    \<^verbatim>\<open>write\<close>, \<^verbatim>\<open>tcgetattr\<close>, \<^verbatim>\<open>tcsetattr\<close> and \<^verbatim>\<open>malloc\<close> succeed, in order; once
    a list is used up the calls succeed.
\<close>

record 'tm world =
  original_state :: 'tm
  raw_mode_enabled :: bool
  history :: "nat list"
  history_index :: nat
  heap :: "char list list"
  tty :: 'tm
  out :: "char list"
  reads :: "rd list"
  writes :: "bool list"
  tcgets :: "bool list"
  tcsets :: "bool list"
  mallocs :: "bool list"

text \<open>
  What is used of the C library and is not part of the repository: the attribute edits of
  \<^verbatim>\<open>enable_raw_mode\<close> (their flag constants come from \<^verbatim>\<open><termios.h>\<close>) and
  \<^verbatim>\<open>sscanf(s, "%hu;%hu", row, col)\<close>, which gives the two numbers when it returns 2.
\<close>

record 'tm libc =
  raw_attrs :: "'tm \<Rightarrow> 'tm"
  sscanf_hu_hu :: "char list \<Rightarrow> (nat \<times> nat) option"

text \<open>
  How a call ends other than by returning: \<open>Exited msg\<close> is \<^verbatim>\<open>exit(EXIT_FAILURE)\<close> at
  the end of \<^verbatim>\<open>die(msg)\<close>, \<open>Aborted\<close> a failed \<^verbatim>\<open>assert\<close>, \<open>Undefined\<close> an access
  outside a block, and \<open>Starved\<close> the loop of \<^verbatim>\<open>read_key\<close> that waits for a byte that
  never arrives.
\<close>

datatype halt = Exited string | Aborted | Undefined | Starved

datatype ('a, 's) res = Ok 'a 's | Halt halt 's

definition bind :: "('a, 's) res \<Rightarrow> ('a \<Rightarrow> 's \<Rightarrow> ('b, 's) res) \<Rightarrow> ('b, 's) res" where
  "bind r k = (case r of Ok a s \<Rightarrow> k a s | Halt h s \<Rightarrow> Halt h s)"

subsection \<open>System calls\<close>

text \<open>Whether the coming call succeeds, from the list of a system call.\<close>

definition next_ok :: "bool list \<Rightarrow> bool" where
  "next_ok oks = (case oks of [] \<Rightarrow> True | ok # rest \<Rightarrow> ok)"

text \<open>\<^verbatim>\<open>write(STDOUT_FILENO, bs, n)\<close>, with whether it returned \<open>n\<close>.\<close>

definition sys_write :: "char list \<Rightarrow> 'tm world \<Rightarrow> bool \<times> 'tm world" where
  "sys_write bs w =
     (if next_ok (writes w) then (True, w\<lparr>out := out w @ bs, writes := tl (writes w)\<rparr>)
      else (False, w\<lparr>writes := tl (writes w)\<rparr>))"

text \<open>\<^verbatim>\<open>read(STDIN_FILENO, &c, 1) == 1\<close> with the byte, and the input that is left.\<close>

fun read1 :: "rd list \<Rightarrow> char option \<times> rd list" where
  "read1 [] = (None, [])"
| "read1 (Byte c # rs) = (Some c, rs)"
| "read1 (r # rs) = (None, rs)"

definition sys_tcgetattr :: "'tm world \<Rightarrow> 'tm option \<times> 'tm world" where
  "sys_tcgetattr w =
     (if next_ok (tcgets w) then (Some (tty w), w\<lparr>tcgets := tl (tcgets w)\<rparr>)
      else (None, w\<lparr>tcgets := tl (tcgets w)\<rparr>))"

definition sys_tcsetattr :: "'tm \<Rightarrow> 'tm world \<Rightarrow> bool \<times> 'tm world" where
  "sys_tcsetattr t w =
     (if next_ok (tcsets w) then (True, w\<lparr>tty := t, tcsets := tl (tcsets w)\<rparr>)
      else (False, w\<lparr>tcsets := tl (tcsets w)\<rparr>))"

text \<open>
  \<^verbatim>\<open>malloc(n)\<close>: a new block of \<open>n\<close> bytes at a new address, or \<^verbatim>\<open>NULL\<close>. The only
  caller overwrites all \<open>n\<close> bytes before any is read.
\<close>

definition sys_malloc :: "nat \<Rightarrow> 'tm world \<Rightarrow> nat option \<times> 'tm world" where
  "sys_malloc n w =
     (if next_ok (mallocs w)
      then (Some (length (heap w)),
            w\<lparr>heap := heap w @ [replicate n NUL], mallocs := tl (mallocs w)\<rparr>)
      else (None, w\<lparr>mallocs := tl (mallocs w)\<rparr>))"

subsection \<open>Memory\<close>

text \<open>
  Accesses to a block are checked against its size: \<open>None\<close> is an access outside the block,
  which is undefined behaviour in C.
\<close>

definition poke :: "char list list \<Rightarrow> nat \<Rightarrow> nat \<Rightarrow> char \<Rightarrow> char list list option" where
  "poke h p i c =
     (if p < length h \<and> i < length (h ! p) then Some (h[p := (h ! p)[i := c]]) else None)"

text \<open>\<^verbatim>\<open>memmove(&p[d], &p[s], n)\<close> inside the block \<open>p\<close>.\<close>

definition memmove :: "char list list \<Rightarrow> nat \<Rightarrow> nat \<Rightarrow> nat \<Rightarrow> nat \<Rightarrow> char list list option" where
  "memmove h p d s n =
     (if p < length h \<and> d + n \<le> length (h ! p) \<and> s + n \<le> length (h ! p)
      then Some (h[p := take d (h ! p) @ take n (drop s (h ! p)) @ drop (d + n) (h ! p)])
      else None)"

text \<open>\<^verbatim>\<open>memcpy(dst, src, n)\<close> between two different objects, given by their bytes.\<close>

definition memcpy :: "char list \<Rightarrow> char list \<Rightarrow> nat \<Rightarrow> char list option" where
  "memcpy dst src n =
     (if n \<le> length dst \<and> n \<le> length src then Some (take n src @ drop n dst) else None)"

text \<open>The \<open>n\<close> bytes from offset \<open>i\<close> of a block, as \<^verbatim>\<open>write\<close> reads them.\<close>

definition slice :: "char list \<Rightarrow> nat \<Rightarrow> nat \<Rightarrow> char list option" where
  "slice b i n = (if i + n \<le> length b then Some (take n (drop i b)) else None)"

fun strlen :: "char list \<Rightarrow> nat option" where
  "strlen [] = None"
| "strlen (c # cs) = (if c = NUL then Some 0 else map_option Suc (strlen cs))"

definition block :: "'tm world \<Rightarrow> nat \<Rightarrow> char list option" where
  "block w p = (if p < length (heap w) then Some (heap w ! p) else None)"

definition store :: "char list list option \<Rightarrow> 'tm world \<Rightarrow> (unit, 'tm world) res" where
  "store ho w = (case ho of None \<Rightarrow> Halt Undefined w | Some h \<Rightarrow> Ok () (w\<lparr>heap := h\<rparr>))"

definition load :: "'a option \<Rightarrow> 'tm world \<Rightarrow> ('a, 'tm world) res" where
  "load xo w = (case xo of None \<Rightarrow> Halt Undefined w | Some x \<Rightarrow> Ok x w)"

subsection \<open>The vector of history lines\<close>

text \<open>
  Modelled from the spec: \<^verbatim>\<open>vector.h\<close> and \<^verbatim>\<open>vector.c\<close> are not among the sources. The
  spec calls the vector a generic resizable array of fixed-size elements and the history an
  ordered list that is appended to at the tail: \<^verbatim>\<open>vector_push\<close> appends one element,
  \<^verbatim>\<open>vector_length\<close> counts the elements and \<^verbatim>\<open>vector_get\<close> gives the element at an
  index below the length. The \<^verbatim>\<open>NULL\<close> vector before \<^verbatim>\<open>vector_init\<close> and the empty
  vector are both the empty list.
\<close>

definition vector_push :: "nat list \<Rightarrow> nat \<Rightarrow> nat list" where
  "vector_push v x = v @ [x]"

definition vector_length :: "nat list \<Rightarrow> nat" where
  "vector_length v = length v"

definition vector_get :: "nat list \<Rightarrow> nat \<Rightarrow> nat option" where
  "vector_get v i = (if i < length v then Some (v ! i) else None)"

subsection \<open>Terminal mode and the fatal-error handler\<close>

text \<open>
  \<^verbatim>\<open>die\<close> and \<^verbatim>\<open>disable_raw_mode\<close> call each other. \<^verbatim>\<open>die\<close> clears
  \<^verbatim>\<open>raw_mode_enabled\<close> before it calls \<^verbatim>\<open>disable_raw_mode\<close>, so a \<^verbatim>\<open>die\<close> that is called
  from there only reports and exits: \<open>disable_raw_mode_with\<close> takes the \<^verbatim>\<open>die\<close> it calls.
  The message goes to \<^verbatim>\<open>stderr\<close> through \<^verbatim>\<open>fputs\<close> or \<^verbatim>\<open>perror\<close> and is kept in
  \<open>Exited\<close>. When \<^verbatim>\<open>errno\<close> is 0, \<^verbatim>\<open>die\<close> also sends a newline to \<^verbatim>\<open>stdout\<close> with
  \<^verbatim>\<open>putchar\<close>; \<^verbatim>\<open>errno\<close> is not modelled and \<open>out\<close> holds the bytes of \<^verbatim>\<open>write\<close> only,
  so this newline is not in \<open>out\<close>. With \<^verbatim>\<open>TCSAFLUSH\<close>, \<^verbatim>\<open>tcsetattr\<close> discards input
  that has arrived and was not read; \<open>reads\<close> lists the results of the \<^verbatim>\<open>read\<close> calls
  that are made, so nothing is removed from it.
\<close>

definition disable_raw_mode_with ::
  "(string \<Rightarrow> 'tm world \<Rightarrow> (unit, 'tm world) res) \<Rightarrow> 'tm world \<Rightarrow> (unit, 'tm world) res" where
  "disable_raw_mode_with die_fn w =
     (case sys_tcsetattr (original_state w) w of
        (True, w') \<Rightarrow> Ok () w'
      | (False, w') \<Rightarrow> die_fn ''failed to disable raw mode (tcsetattr)'' w')"

definition die :: "string \<Rightarrow> 'tm world \<Rightarrow> ('a, 'tm world) res" where
  "die msg w =
     (if raw_mode_enabled w then
        (case disable_raw_mode_with (\<lambda>m v. Halt (Exited m) v) (w\<lparr>raw_mode_enabled := False\<rparr>) of
           Ok u w' \<Rightarrow> Halt (Exited msg) w'
         | Halt h w' \<Rightarrow> Halt h w')
      else Halt (Exited msg) w)"

definition disable_raw_mode :: "'tm world \<Rightarrow> (unit, 'tm world) res" where
  "disable_raw_mode w = disable_raw_mode_with die w"

definition enable_raw_mode :: "'tm libc \<Rightarrow> 'tm world \<Rightarrow> (unit, 'tm world) res" where
  "enable_raw_mode lc w =
     (case sys_tcgetattr w of
        (None, w1) \<Rightarrow> die ''failed to enable raw mode (tcgetattr)'' w1
      | (Some t, w1) \<Rightarrow>
          (let w2 = w1\<lparr>original_state := t\<rparr>;
               term = raw_attrs lc (original_state w2)
           in case sys_tcsetattr term w2 of
                (False, w3) \<Rightarrow> die ''failed to enable raw mode (tcsetattr)'' w3
              | (True, w3) \<Rightarrow> Ok () (w3\<lparr>raw_mode_enabled := True\<rparr>)))"

subsection \<open>The key decoder\<close>

text \<open>
  The first loop of \<^verbatim>\<open>read_key\<close>: it reads until a byte arrives, going round again after
  a timeout and after \<^verbatim>\<open>EAGAIN\<close>. \<open>None\<close>: no byte ever arrives; \<open>Some (None, rs)\<close>: a
  read failed with another error.
\<close>

fun read_first :: "rd list \<Rightarrow> (char option \<times> rd list) option" where
  "read_first [] = None"
| "read_first (Byte c # rs) = Some (Some c, rs)"
| "read_first (Timeout # rs) = read_first rs"
| "read_first (Eagain # rs) = read_first rs"
| "read_first (Eio # rs) = Some (None, rs)"

text \<open>
  After \<^verbatim>\<open>ESC [\<close> and a digit \<open>s1\<close>: the fourth byte, and the fifth and sixth
  when the fourth is not \<^verbatim>\<open>~\<close>.
\<close>

definition read_csi_num :: "char \<Rightarrow> rd list \<Rightarrow> int \<times> rd list" where
  "read_csi_num s1 rs =
     (case read1 rs of
        (None, rs2) \<Rightarrow> (KEY_ESC, rs2)
      | (Some s2, rs2) \<Rightarrow>
          if s2 \<noteq> CHR ''~'' then
            (case read1 rs2 of
               (Some s3, rs3) \<Rightarrow> (KEY_ESC, snd (read1 rs3))
             | (None, rs3) \<Rightarrow> (KEY_ESC, rs3))
          else if s1 = CHR ''1'' \<or> s1 = CHR ''7'' then (KEY_HOME, rs2)
          else if s1 = CHR ''3'' then (KEY_DELETE, rs2)
          else if s1 = CHR ''4'' \<or> s1 = CHR ''8'' then (KEY_END, rs2)
          else if s1 = CHR ''5'' then (KEY_PAGE_UP, rs2)
          else if s1 = CHR ''6'' then (KEY_PAGE_DOWN, rs2)
          else (KEY_ESC, rs2))"

text \<open>After \<^verbatim>\<open>ESC [\<close>: the third byte and what follows it.\<close>

definition read_csi :: "rd list \<Rightarrow> int \<times> rd list" where
  "read_csi rs =
     (case read1 rs of
        (None, rs1) \<Rightarrow> (KEY_ESC, rs1)
      | (Some s1, rs1) \<Rightarrow>
          if (of_char (CHR ''0'') :: nat) \<le> of_char s1 \<and> (of_char s1 :: nat) \<le> of_char (CHR ''9'')
          then read_csi_num s1 rs1
          else if s1 = CHR ''A'' then (KEY_ARROW_UP, rs1)
          else if s1 = CHR ''B'' then (KEY_ARROW_DOWN, rs1)
          else if s1 = CHR ''C'' then (KEY_ARROW_RIGHT, rs1)
          else if s1 = CHR ''D'' then (KEY_ARROW_LEFT, rs1)
          else if s1 = CHR ''F'' then (KEY_END, rs1)
          else if s1 = CHR ''H'' then (KEY_HOME, rs1)
          else (KEY_ESC, rs1))"

text \<open>After \<^verbatim>\<open>ESC O\<close>: the third byte.\<close>

definition read_ss3 :: "rd list \<Rightarrow> int \<times> rd list" where
  "read_ss3 rs =
     (case read1 rs of
        (None, rs1) \<Rightarrow> (KEY_ESC, rs1)
      | (Some s1, rs1) \<Rightarrow>
          if s1 = CHR ''A'' then (KEY_ARROW_UP, rs1)
          else if s1 = CHR ''B'' then (KEY_ARROW_DOWN, rs1)
          else if s1 = CHR ''C'' then (KEY_ARROW_RIGHT, rs1)
          else if s1 = CHR ''D'' then (KEY_ARROW_LEFT, rs1)
          else if s1 = CHR ''F'' then (KEY_END, rs1)
          else if s1 = CHR ''H'' then (KEY_HOME, rs1)
          else (KEY_ESC, rs1))"

text \<open>
  The label \<^verbatim>\<open>read_esc_seq\<close>: the second byte; \<^verbatim>\<open>goto read_esc_seq\<close> when it is
  another \<^verbatim>\<open>ESC\<close>.
\<close>

fun read_esc_seq :: "rd list \<Rightarrow> int \<times> rd list" where
  "read_esc_seq [] = (KEY_ESC, [])"
| "read_esc_seq (Byte s0 # rs) =
     (if s0 = ESC then read_esc_seq rs
      else if s0 = CHR ''['' then read_csi rs
      else if s0 = CHR ''O'' then read_ss3 rs
      else (KEY_ESC, rs))"
| "read_esc_seq (r # rs) = (KEY_ESC, rs)"

definition read_key :: "'tm world \<Rightarrow> (int, 'tm world) res" where
  "read_key w =
     (if \<not> raw_mode_enabled w then Halt Aborted w
      else case read_first (reads w) of
        None \<Rightarrow> Halt Starved (w\<lparr>reads := []\<rparr>)
      | Some (None, rs) \<Rightarrow> die ''failed to read input'' (w\<lparr>reads := rs\<rparr>)
      | Some (Some c, rs) \<Rightarrow>
          if int_of_char c \<noteq> KEY_ESC then Ok (int_of_char c) (w\<lparr>reads := rs\<rparr>)
          else (case read_esc_seq rs of (key, rs') \<Rightarrow> Ok key (w\<lparr>reads := rs'\<rparr>)))"

subsection \<open>The cursor and screen driver\<close>

text \<open>\<^verbatim>\<open>%d\<close> of \<^verbatim>\<open>snprintf\<close> for a number that is not negative.\<close>

fun dec :: "nat \<Rightarrow> string" where
  "dec n = (if n < 10 then [char_of (48 + n)] else dec (n div 10) @ [char_of (48 + n mod 10)])"

declare dec.simps [simp del]

text \<open>
  The \<^verbatim>\<open>for\<close> loop of \<^verbatim>\<open>get_cursor_position\<close>, with \<open>n\<close> the number of rounds left
  (\<^verbatim>\<open>sizeof(res) - i\<close>): the bytes stored in \<^verbatim>\<open>res[0..i)\<close> when the loop stops, and the
  input that is left.
\<close>

fun read_cpr :: "nat \<Rightarrow> rd list \<Rightarrow> char list \<times> rd list" where
  "read_cpr n rs =
     (if n = 0 then ([], rs)
      else case read1 rs of
        (None, rs1) \<Rightarrow> ([], rs1)
      | (Some c, rs1) \<Rightarrow>
          if c = CHR ''R'' then ([], rs1)
          else (case read_cpr (n - 1) rs1 of (cs, rs2) \<Rightarrow> (c # cs, rs2)))"

declare read_cpr.simps [simp del]

text \<open>
  \<^verbatim>\<open>res[i] = '\0'\<close> after the loop is outside \<^verbatim>\<open>char res[16]\<close> when all 16 rounds
  stored a byte. \<^verbatim>\<open>sscanf\<close> reads the string that starts at \<^verbatim>\<open>res[2]\<close>, up to the
  first \<^verbatim>\<open>'\0'\<close>; the numbers are stored as \<^verbatim>\<open>unsigned short\<close>.
\<close>

definition get_cursor_position :: "'tm libc \<Rightarrow> 'tm world \<Rightarrow> ((nat \<times> nat) option, 'tm world) res" where
  "get_cursor_position lc w =
     (case sys_write (ESC # ''[6n'') w of
        (False, w1) \<Rightarrow> Ok None w1
      | (True, w1) \<Rightarrow>
          (case read_cpr 16 (reads w1) of
             (cs, rs) \<Rightarrow>
               (let w2 = w1\<lparr>reads := rs\<rparr> in
                if length cs = 16 then Halt Undefined w2
                else if take 2 (cs @ [NUL]) \<noteq> [ESC, CHR ''[''] then Ok None w2
                else (case sscanf_hu_hu lc (takeWhile (\<lambda>c. c \<noteq> NUL) (drop 2 cs)) of
                        None \<Rightarrow> Ok None w2
                      | Some (row, col) \<Rightarrow> Ok (Some (row mod 65536, col mod 65536)) w2))))"

definition move_cursor_left :: "'tm world \<Rightarrow> bool \<times> 'tm world" where
  "move_cursor_left w = sys_write (ESC # ''[D'') w"

definition move_cursor_right :: "'tm world \<Rightarrow> bool \<times> 'tm world" where
  "move_cursor_right w = sys_write (ESC # ''[C'') w"

text \<open>The arguments are \<^verbatim>\<open>unsigned short\<close>: the callers reduce them modulo 65536.\<close>

definition move_cursor_to :: "nat \<Rightarrow> nat \<Rightarrow> 'tm world \<Rightarrow> bool \<times> 'tm world" where
  "move_cursor_to row col w = sys_write (ESC # ''['' @ dec row @ '';'' @ dec col @ ''H'') w"

definition repaint_line :: "nat \<Rightarrow> nat \<Rightarrow> nat \<Rightarrow> nat \<Rightarrow> 'tm world \<Rightarrow> (bool, 'tm world) res" where
  "repaint_line orig_cy orig_cx line len w =
     (case move_cursor_to orig_cy orig_cx w of
        (False, w1) \<Rightarrow> die ''repaint_line: failed to move cursor'' w1
      | (True, w1) \<Rightarrow>
          (case sys_write (ESC # ''[K'') w1 of
             (False, w2) \<Rightarrow> die ''repaint_line: failed to clear line'' w2
           | (True, w2) \<Rightarrow>
               bind (load (Option.bind (block w2 line) (\<lambda>b. slice b 0 len)) w2) (\<lambda>bs w3.
                 case sys_write bs w3 of (ok, w4) \<Rightarrow> Ok ok w4)))"

subsection \<open>The history store\<close>

definition add_to_history :: "char list \<Rightarrow> nat \<Rightarrow> 'tm world \<Rightarrow> (bool, 'tm world) res" where
  "add_to_history buf buf_size w =
     (case sys_malloc buf_size w of
        (None, w1) \<Rightarrow> Ok False w1
      | (Some line_copy, w1) \<Rightarrow>
          bind (load (Option.bind (block w1 line_copy) (\<lambda>b. memcpy b buf buf_size)) w1) (\<lambda>b w2.
            Ok True (w2\<lparr>heap := (heap w2)[line_copy := b],
                        history := vector_push (history w2) line_copy\<rparr>)))"

subsection \<open>The edit loop\<close>

text \<open>The locals of \<^verbatim>\<open>rl_read_line\<close>. \<open>current_buf\<close> is the address of the live line.\<close>

record frame =
  buf_size :: nat
  history_len :: nat
  current_buf :: nat
  cx :: nat
  cy :: nat
  cursor_pos :: nat
  num_chars :: nat

text \<open>
  How one round of the \<^verbatim>\<open>while\<close> loop ends: at its end or with \<^verbatim>\<open>continue\<close>
  (\<open>Continue\<close>), with \<^verbatim>\<open>goto end_of_loop\<close>, or with \<^verbatim>\<open>return\<close>.
\<close>

datatype ctl = Continue frame | EndOfLoop frame | Return ReadLineResult

text \<open>The block \<^verbatim>\<open>if (cursor_pos < num_chars)\<close> of a printable key.\<close>

definition shift_tail :: "frame \<Rightarrow> 'tm world \<Rightarrow> (unit, 'tm world) res" where
  "shift_tail f w =
     bind (store (memmove (heap w) (current_buf f) (cursor_pos f + 1) (cursor_pos f)
                    (num_chars f - cursor_pos f + 1)) w) (\<lambda>u w1.
       let len = num_chars f - cursor_pos f in
       bind (load (Option.bind (block w1 (current_buf f)) (\<lambda>b. slice b (cursor_pos f + 1) len)) w1)
         (\<lambda>bs w2.
            case sys_write bs w2 of
              (False, w3) \<Rightarrow> die ''failed to write to terminal (key press, repaint)'' w3
            | (True, w3) \<Rightarrow>
                (case move_cursor_to (cy f) ((cx f + cursor_pos f + 1) mod 65536) w3 of
                   (False, w4) \<Rightarrow> die ''failed to move cursor (key press)'' w4
                 | (True, w4) \<Rightarrow> Ok () w4)))"

definition on_printable :: "int \<Rightarrow> frame \<Rightarrow> 'tm world \<Rightarrow> (ctl, 'tm world) res" where
  "on_printable key f w =
     (case sys_write [low_byte key] w of
        (False, w1) \<Rightarrow> die ''failed to write to terminal (key press)'' w1
      | (True, w1) \<Rightarrow>
          bind (if cursor_pos f < num_chars f then shift_tail f w1 else Ok () w1) (\<lambda>u w2.
          bind (store (poke (heap w2) (current_buf f) (cursor_pos f) (low_byte key)) w2) (\<lambda>u w3.
            let f1 = f\<lparr>cursor_pos := cursor_pos f + 1\<rparr>;
                f2 = f1\<lparr>num_chars := num_chars f1 + 1\<rparr>
            in bind (store (poke (heap w3) (current_buf f2) (num_chars f2) NUL) w3) (\<lambda>u w4.
                 Ok (Continue f2) w4))))"

definition on_enter :: "frame \<Rightarrow> 'tm world \<Rightarrow> (ctl, 'tm world) res" where
  "on_enter f w =
     (case sys_write [CHR 0x0D, CHR 0x0A] w of
        (False, w1) \<Rightarrow> die ''failed to write to terminal (key press, enter)'' w1
      | (True, w1) \<Rightarrow> Ok (EndOfLoop f) w1)"

definition on_ctrl_c :: "frame \<Rightarrow> 'tm world \<Rightarrow> (ctl, 'tm world) res" where
  "on_ctrl_c f w = bind (disable_raw_mode w) (\<lambda>u w1. Ok (Return RL_SIGINT) w1)"

definition on_ctrl_d :: "frame \<Rightarrow> 'tm world \<Rightarrow> (ctl, 'tm world) res" where
  "on_ctrl_d f w =
     (if num_chars f = 0 then bind (disable_raw_mode w) (\<lambda>u w1. Ok (Return RL_EOF) w1)
      else Ok (EndOfLoop f) w)"

text \<open>
  \<^verbatim>\<open>num_chars - cursor_pos\<close> and \<^verbatim>\<open>--num_chars\<close> are \<^verbatim>\<open>size_t\<close> arithmetic: with the
  cursor beyond the length they wrap around and the access that follows is outside the
  block.
\<close>

definition on_backspace :: "frame \<Rightarrow> 'tm world \<Rightarrow> (ctl, 'tm world) res" where
  "on_backspace f w =
     (if cursor_pos f = 0 then Ok (Continue f) w
      else if num_chars f < cursor_pos f then Halt Undefined w
      else
        let f1 = f\<lparr>cursor_pos := cursor_pos f - 1\<rparr> in
        bind (store (memmove (heap w) (current_buf f1) (cursor_pos f1) (cursor_pos f1 + 1)
                       (num_chars f1 - cursor_pos f1)) w) (\<lambda>u w1.
          let f2 = f1\<lparr>num_chars := num_chars f1 - 1\<rparr> in
          bind (store (poke (heap w1) (current_buf f2) (num_chars f2) NUL) w1) (\<lambda>u w2.
          bind (repaint_line (cy f2) (cx f2) (current_buf f2) (num_chars f2) w2) (\<lambda>ok w3.
            if \<not> ok then die ''failed to repaint line (BACKSPACE)'' w3
            else Ok (Continue f2) w3))))"

definition on_arrow_up_down :: "int \<Rightarrow> frame \<Rightarrow> 'tm world \<Rightarrow> (ctl, 'tm world) res" where
  "on_arrow_up_down key f w =
     (if (key = KEY_ARROW_UP \<and> history_index w = 0) \<or>
         (key = KEY_ARROW_DOWN \<and> history_index w = history_len f - 1)
      then Ok (Continue f) w
      else
        let w1 = w\<lparr>history_index :=
                     (if key = KEY_ARROW_UP then history_index w - 1 else history_index w + 1)\<rparr>
        in bind (load (vector_get (history w1) (history_index w1)) w1) (\<lambda>p w2.
             let f1 = f\<lparr>current_buf := p\<rparr> in
             bind (load (Option.bind (block w2 (current_buf f1)) strlen) w2) (\<lambda>current_buf_len w3.
             bind (repaint_line (cy f1) (cx f1) (current_buf f1) current_buf_len w3) (\<lambda>ok w4.
               if \<not> ok then die ''failed to repaint line (ARROW_UP/DOWN)'' w4
               else Ok (Continue (f1\<lparr>cursor_pos := current_buf_len,
                                      num_chars := current_buf_len\<rparr>)) w4))))"

definition on_left :: "frame \<Rightarrow> 'tm world \<Rightarrow> (ctl, 'tm world) res" where
  "on_left f w =
     (if cursor_pos f = 0 then Ok (Continue f) w
      else case move_cursor_left w of
             (ok, w1) \<Rightarrow> Ok (Continue (f\<lparr>cursor_pos := cursor_pos f - 1\<rparr>)) w1)"

definition on_right :: "frame \<Rightarrow> 'tm world \<Rightarrow> (ctl, 'tm world) res" where
  "on_right f w =
     (if cursor_pos f = num_chars f then Ok (Continue f) w
      else case move_cursor_right w of
             (ok, w1) \<Rightarrow> Ok (Continue (f\<lparr>cursor_pos := cursor_pos f + 1\<rparr>)) w1)"

text \<open>The body of the \<^verbatim>\<open>while\<close> loop after \<^verbatim>\<open>read_key\<close>.\<close>

definition loop_body :: "int \<Rightarrow> frame \<Rightarrow> 'tm world \<Rightarrow> (ctl, 'tm world) res" where
  "loop_body key f w =
     (if isprint key then on_printable key f w
      else if key = KEY_ENTER then on_enter f w
      else if key = CTRL_KEY (CHR ''c'') then on_ctrl_c f w
      else if key = CTRL_KEY (CHR ''d'') then on_ctrl_d f w
      else if key = KEY_BACKSPACE then on_backspace f w
      else if key = KEY_ARROW_UP \<or> key = KEY_ARROW_DOWN then on_arrow_up_down key f w
      else if key = CTRL_KEY (CHR ''b'') \<or> key = KEY_ARROW_LEFT then on_left f w
      else if key = CTRL_KEY (CHR ''f'') \<or> key = KEY_ARROW_RIGHT then on_right f w
      else Ok (Continue f) w)"

text \<open>One round: the key is read and handled.\<close>

definition loop_round :: "frame \<Rightarrow> 'tm world \<Rightarrow> (ctl, 'tm world) res" where
  "loop_round f w = bind (read_key w) (\<lambda>key w1. loop_body key f w1)"

subsection \<open>What the handlers leave alone\<close>

lemma bind_Ok_iff:
  "bind r k = Ok b t \<longleftrightarrow> (\<exists>a s. r = Ok a s \<and> k a s = Ok b t)"
  by (cases r) (simp_all add: bind_def)

lemma die_not_Ok [simp]: "die msg w \<noteq> Ok a w'"
  by (simp add: die_def disable_raw_mode_with_def sys_tcsetattr_def)

lemma load_Ok: "load xo w = Ok x w' \<Longrightarrow> w' = w \<and> xo = Some x"
  by (auto simp: load_def split: option.splits)

text \<open>
  The fields that no round of the edit loop changes: the saved terminal attributes, the
  raw-mode flag, the history vector, the pending input and the lists of \<^verbatim>\<open>tcgetattr\<close>
  and \<^verbatim>\<open>malloc\<close>.
\<close>

definition kept :: "'tm world \<Rightarrow> 'tm world \<Rightarrow> bool" where
  "kept w w' \<longleftrightarrow>
     original_state w' = original_state w \<and> raw_mode_enabled w' = raw_mode_enabled w \<and>
     history w' = history w \<and> reads w' = reads w \<and> tcgets w' = tcgets w \<and>
     mallocs w' = mallocs w"

lemma kept_refl [simp]: "kept w w"
  by (simp add: kept_def)

lemma kept_trans: "kept w w1 \<Longrightarrow> kept w1 w2 \<Longrightarrow> kept w w2"
  by (simp add: kept_def)

lemma store_kept: "store ho w = Ok u w' \<Longrightarrow> kept w w'"
  by (auto simp: store_def kept_def split: option.splits)

lemma sys_write_kept [simp]: "kept w (snd (sys_write bs w))"
  by (simp add: sys_write_def kept_def)

lemma sys_write_kept': "sys_write bs w = (ok, w') \<Longrightarrow> kept w w'"
  using sys_write_kept [of w bs] by simp

lemma disable_raw_mode_kept: "disable_raw_mode w = Ok u w' \<Longrightarrow> kept w w'"
  by (auto simp: disable_raw_mode_def disable_raw_mode_with_def sys_tcsetattr_def kept_def
      split: if_splits)

lemma repaint_line_kept: "repaint_line r c p n w = Ok ok w' \<Longrightarrow> kept w w'"
  by (auto simp: repaint_line_def bind_Ok_iff move_cursor_to_def sys_write_def kept_def
      split: if_splits dest!: load_Ok)

lemma shift_tail_kept: "shift_tail f w = Ok u w' \<Longrightarrow> kept w w'"
  by (auto simp: shift_tail_def bind_Ok_iff Let_def move_cursor_to_def sys_write_def store_def kept_def
      split: if_splits option.splits dest!: load_Ok)

lemma on_printable_kept: "on_printable key f w = Ok c w' \<Longrightarrow> kept w w'"
  by (auto simp: on_printable_def bind_Ok_iff Let_def sys_write_def
      split: if_splits dest!: shift_tail_kept store_kept) (auto simp: kept_def)

lemma on_backspace_kept: "on_backspace f w = Ok c w' \<Longrightarrow> kept w w'"
  by (auto simp: on_backspace_def bind_Ok_iff Let_def
      split: if_splits dest!: repaint_line_kept store_kept) (auto simp: kept_def)

lemma on_arrow_up_down_kept: "on_arrow_up_down key f w = Ok c w' \<Longrightarrow> kept w w'"
  by (auto simp: on_arrow_up_down_def bind_Ok_iff Let_def
      split: if_splits dest!: load_Ok repaint_line_kept) (auto simp: kept_def)

lemma loop_body_kept: "loop_body key f w = Ok c w' \<Longrightarrow> kept w w'"
  by (auto simp: loop_body_def on_enter_def on_ctrl_c_def on_ctrl_d_def on_left_def on_right_def
      move_cursor_left_def move_cursor_right_def bind_Ok_iff sys_write_def
      split: if_splits
      dest!: on_printable_kept on_backspace_kept on_arrow_up_down_kept disable_raw_mode_kept)
    (auto simp: kept_def)

subsection \<open>The key decoder: which sequences give which key\<close>

text \<open>
  The escape sequences that the spec lists as recognized (after the \<^verbatim>\<open>ESC\<close> byte):
  \<^verbatim>\<open>A/B/C/D\<close> for the arrows, \<^verbatim>\<open>H\<close> and \<^verbatim>\<open>F\<close> or the numbers 1, 7 and 4, 8 for
  Home and End, 3 for Delete, 5 and 6 for Page Up and Page Down, each number ended by
  \<^verbatim>\<open>~\<close>, in the families \<^verbatim>\<open>ESC [\<close> and \<^verbatim>\<open>ESC O\<close>.
\<close>

definition escape_table :: "(string \<times> int) list" where
  "escape_table =
     [(''[A'', KEY_ARROW_UP), (''[B'', KEY_ARROW_DOWN), (''[C'', KEY_ARROW_RIGHT),
      (''[D'', KEY_ARROW_LEFT), (''[H'', KEY_HOME), (''[F'', KEY_END),
      (''[1~'', KEY_HOME), (''[7~'', KEY_HOME), (''[4~'', KEY_END), (''[8~'', KEY_END),
      (''[3~'', KEY_DELETE), (''[5~'', KEY_PAGE_UP), (''[6~'', KEY_PAGE_DOWN),
      (''OA'', KEY_ARROW_UP), (''OB'', KEY_ARROW_DOWN), (''OC'', KEY_ARROW_RIGHT),
      (''OD'', KEY_ARROW_LEFT), (''OH'', KEY_HOME), (''OF'', KEY_END)]"

lemma read1_used: "\<exists>used. rs = used @ snd (read1 rs)"
  by (cases rs rule: read1.cases) auto

lemma read1_cases:
  obtains "rs = []" "read1 rs = (None, [])"
  | c rs1 where "rs = Byte c # rs1" "read1 rs = (Some c, rs1)"
  | r rs1 where "rs = r # rs1" "read1 rs = (None, rs1)"
  by (cases rs rule: read1.cases) auto

lemma read_csi_num_sound:
  assumes "read_csi_num s1 rs = (key, rest)"
  shows "(\<exists>used. rs = used @ rest) \<and>
         (key = KEY_ESC \<or> (\<exists>pat. (CHR ''['' # s1 # pat, key) \<in> set escape_table \<and> rs = map Byte pat @ rest))"
proof (cases rs rule: read1_cases)
  case 1
  with assms show ?thesis by (simp add: read_csi_num_def)
next
  case (3 r rs1)
  with assms show ?thesis by (auto simp: read_csi_num_def)
next
  case (2 s2 rs2)
  show ?thesis
  proof (cases "s2 = CHR ''~''")
    case True
    have r: "rest = rs2"
      using assms 2 True by (simp add: read_csi_num_def split: if_splits)
    have "key = KEY_ESC \<or> ([CHR ''['', s1, CHR ''~''], key) \<in> set escape_table"
      using assms 2 True by (auto simp: read_csi_num_def escape_table_def split: if_splits)
    then have "key = KEY_ESC \<or>
        ((CHR ''['' # s1 # ''~'', key) \<in> set escape_table \<and> rs = map Byte ''~'' @ rest)"
      using 2 True r by simp
    moreover have "rs = [Byte s2] @ rest" using 2 r by simp
    ultimately show ?thesis by blast
  next
    case False
    have key: "key = KEY_ESC"
      using assms 2 False by (auto simp: read_csi_num_def split: prod.splits option.splits)
    have "\<exists>used. rs2 = used @ rest"
    proof (cases rs2 rule: read1_cases)
      case 1
      with assms 2 False show ?thesis by (simp add: read_csi_num_def)
    next
      case (3 r rs3)
      with assms 2 False show ?thesis by (auto simp: read_csi_num_def)
    next
      case b: (2 s3 rs3)
      obtain u where "rs3 = u @ snd (read1 rs3)" using read1_used by blast
      moreover have "rest = snd (read1 rs3)"
        using assms 2 False b by (simp add: read_csi_num_def)
      ultimately show ?thesis using b by (metis append_Cons)
    qed
    then show ?thesis using key 2 by (metis append_Cons)
  qed
qed

lemma read_csi_sound:
  assumes "read_csi rs = (key, rest)"
  shows "(\<exists>used. rs = used @ rest) \<and>
         (key = KEY_ESC \<or> (\<exists>pat. (CHR ''['' # pat, key) \<in> set escape_table \<and> rs = map Byte pat @ rest))"
proof (cases rs rule: read1_cases)
  case 1
  with assms show ?thesis by (simp add: read_csi_def)
next
  case (3 r rs1)
  with assms show ?thesis by (auto simp: read_csi_def)
next
  case (2 s1 rs1)
  show ?thesis
  proof (cases "(of_char (CHR ''0'') :: nat) \<le> of_char s1 \<and> (of_char s1 :: nat) \<le> of_char (CHR ''9'')")
    case True
    then have "read_csi_num s1 rs1 = (key, rest)"
      using assms 2 by (simp add: read_csi_def)
    from read_csi_num_sound [OF this] show ?thesis
      using 2 by (metis append_Cons list.simps(9))
  next
    case False
    have r: "rest = rs1"
      using assms 2 False by (simp add: read_csi_def split: if_splits)
    have "key = KEY_ESC \<or> ([CHR ''['', s1], key) \<in> set escape_table"
      using assms 2 False by (auto simp: read_csi_def escape_table_def split: if_splits)
    then have "key = KEY_ESC \<or>
        ((CHR ''['' # [s1], key) \<in> set escape_table \<and> rs = map Byte [s1] @ rest)"
      using 2 r by simp
    moreover have "rs = [Byte s1] @ rest" using 2 r by simp
    ultimately show ?thesis by blast
  qed
qed

lemma read_ss3_sound:
  assumes "read_ss3 rs = (key, rest)"
  shows "(\<exists>used. rs = used @ rest) \<and>
         (key = KEY_ESC \<or> (\<exists>pat. (CHR ''O'' # pat, key) \<in> set escape_table \<and> rs = map Byte pat @ rest))"
proof (cases rs rule: read1_cases)
  case 1
  with assms show ?thesis by (simp add: read_ss3_def)
next
  case (3 r rs1)
  with assms show ?thesis by (auto simp: read_ss3_def)
next
  case (2 s1 rs1)
  have r: "rest = rs1"
    using assms 2 by (simp add: read_ss3_def split: if_splits)
  have "key = KEY_ESC \<or> ([CHR ''O'', s1], key) \<in> set escape_table"
    using assms 2 by (auto simp: read_ss3_def escape_table_def split: if_splits)
  then have "key = KEY_ESC \<or>
      ((CHR ''O'' # [s1], key) \<in> set escape_table \<and> rs = map Byte [s1] @ rest)"
    using 2 r by simp
  moreover have "rs = [Byte s1] @ rest" using 2 r by simp
  ultimately show ?thesis by blast
qed

lemma cons_used: "\<exists>used. r # rs = used @ rs"
  by (rule exI [of _ "[r]"]) simp

lemma read_esc_seq_sound:
  "read_esc_seq rs = (key, rest) \<Longrightarrow>
     (\<exists>used. rs = used @ rest) \<and>
     (key = KEY_ESC \<or>
      (\<exists>n pat. (pat, key) \<in> set escape_table \<and> rs = replicate n (Byte ESC) @ map Byte pat @ rest))"
proof (induction rs rule: read_esc_seq.induct)
  case 1
  then show ?case by simp
next
  case (2 s0 rs)
  consider (esc) "s0 = ESC" | (csi) "s0 \<noteq> ESC" "s0 = CHR ''[''"
    | (ss3) "s0 \<noteq> ESC" "s0 \<noteq> CHR ''[''" "s0 = CHR ''O''"
    | (other) "s0 \<noteq> ESC" "s0 \<noteq> CHR ''[''" "s0 \<noteq> CHR ''O''"
    by blast
  then show ?case
  proof cases
    case esc
    with 2 have "read_esc_seq rs = (key, rest)" by simp
    from "2.IH" [OF esc this] obtain used where u: "rs = used @ rest"
      and k: "key = KEY_ESC \<or> (\<exists>n pat. (pat, key) \<in> set escape_table \<and> rs = replicate n (Byte ESC) @ map Byte pat @ rest)"
      by blast
    have "\<exists>used. Byte s0 # rs = used @ rest" using u by (metis append_Cons)
    moreover have "key = KEY_ESC \<or> (\<exists>n pat. (pat, key) \<in> set escape_table \<and> Byte s0 # rs = replicate n (Byte ESC) @ map Byte pat @ rest)"
    proof (cases "key = KEY_ESC")
      case False
      with k obtain n pat where "(pat, key) \<in> set escape_table" "rs = replicate n (Byte ESC) @ map Byte pat @ rest"
        by blast
      then have "(pat, key) \<in> set escape_table \<and> Byte s0 # rs = replicate (Suc n) (Byte ESC) @ map Byte pat @ rest"
        using esc by simp
      then show ?thesis by blast
    qed simp
    ultimately show ?thesis by blast
  next
    case csi
    with 2 have "read_csi rs = (key, rest)" by simp
    from read_csi_sound [OF this] obtain used where u: "rs = used @ rest"
      and k: "key = KEY_ESC \<or> (\<exists>pat. (CHR ''['' # pat, key) \<in> set escape_table \<and> rs = map Byte pat @ rest)"
      by blast
    have "\<exists>used. Byte s0 # rs = used @ rest" using u by (metis append_Cons)
    moreover have "key = KEY_ESC \<or> (\<exists>n pat. (pat, key) \<in> set escape_table \<and> Byte s0 # rs = replicate n (Byte ESC) @ map Byte pat @ rest)"
    proof (cases "key = KEY_ESC")
      case False
      with k obtain pat where "(CHR ''['' # pat, key) \<in> set escape_table" "rs = map Byte pat @ rest"
        by blast
      then have "(CHR ''['' # pat, key) \<in> set escape_table \<and> Byte s0 # rs = replicate 0 (Byte ESC) @ map Byte (CHR ''['' # pat) @ rest"
        using csi by simp
      then show ?thesis by blast
    qed simp
    ultimately show ?thesis by blast
  next
    case ss3
    with 2 have "read_ss3 rs = (key, rest)" by simp
    from read_ss3_sound [OF this] obtain used where u: "rs = used @ rest"
      and k: "key = KEY_ESC \<or> (\<exists>pat. (CHR ''O'' # pat, key) \<in> set escape_table \<and> rs = map Byte pat @ rest)"
      by blast
    have "\<exists>used. Byte s0 # rs = used @ rest" using u by (metis append_Cons)
    moreover have "key = KEY_ESC \<or> (\<exists>n pat. (pat, key) \<in> set escape_table \<and> Byte s0 # rs = replicate n (Byte ESC) @ map Byte pat @ rest)"
    proof (cases "key = KEY_ESC")
      case False
      with k obtain pat where "(CHR ''O'' # pat, key) \<in> set escape_table" "rs = map Byte pat @ rest"
        by blast
      then have "(CHR ''O'' # pat, key) \<in> set escape_table \<and> Byte s0 # rs = replicate 0 (Byte ESC) @ map Byte (CHR ''O'' # pat) @ rest"
        using ss3 by simp
      then show ?thesis by blast
    qed simp
    ultimately show ?thesis by blast
  next
    case other
    with 2 show ?thesis by (auto intro: exI [of _ "[Byte s0]"])
  qed
qed (auto simp: cons_used)



lemma read_esc_seq_le: "read_esc_seq rs = (key, rest) \<Longrightarrow> length rest \<le> length rs"
  using read_esc_seq_sound [of rs key rest] by auto

lemma read_first_length: "read_first rs = Some (x, rs') \<Longrightarrow> length rs' < length rs"
  by (induction rs rule: read_first.induct) auto

lemma read_key_reads: "read_key w = Ok key w' \<Longrightarrow> length (reads w') < length (reads w)"
  by (auto simp: read_key_def split: if_splits option.splits prod.splits
      dest!: read_first_length read_esc_seq_le)

lemma loop_round_reads: "loop_round f w = Ok c w' \<Longrightarrow> length (reads w') < length (reads w)"
  by (auto simp: loop_round_def bind_Ok_iff kept_def dest!: read_key_reads loop_body_kept)

subsection \<open>The loop and the entry point\<close>

text \<open>
  The \<^verbatim>\<open>while (num_chars < buf_size - 1)\<close> loop. Every round takes at least one item of
  \<open>reads\<close>, so the recursion ends.
\<close>

function edit_loop :: "frame \<Rightarrow> 'tm world \<Rightarrow> (ctl, 'tm world) res" where
  "edit_loop f w =
     (if num_chars f < buf_size f - 1 then
        (case loop_round f w of
           Ok (Continue f') w' \<Rightarrow> edit_loop f' w'
         | Ok (EndOfLoop f') w' \<Rightarrow> Ok (EndOfLoop f') w'
         | Ok (Return r) w' \<Rightarrow> Ok (Return r) w'
         | Halt h w' \<Rightarrow> Halt h w')
      else Ok (EndOfLoop f) w)"
  by pat_completeness auto

termination
  by (relation "measure (\<lambda>(f, w). length (reads w))") (auto dest: loop_round_reads)

declare edit_loop.simps [simp del]

text \<open>
  From the label \<^verbatim>\<open>end_of_loop\<close> to \<^verbatim>\<open>return RL_SUCCESS\<close>. \<open>buf\<close> is the caller's
  buffer; the result carries what it holds afterwards.
\<close>

definition end_of_loop ::
  "char list \<Rightarrow> frame \<Rightarrow> 'tm world \<Rightarrow> (ReadLineResult \<times> char list, 'tm world) res" where
  "end_of_loop buf f w =
     bind (store (poke (heap w) (current_buf f) (num_chars f) NUL) w) (\<lambda>u w1.
       let num_chars_to_copy = (if num_chars f < buf_size f then num_chars f + 1 else buf_size f) in
       bind (load (Option.bind (block w1 (current_buf f))
                     (\<lambda>src. memcpy buf src num_chars_to_copy)) w1) (\<lambda>buf' w2.
       bind (if history_index w2 < history_len f - 1 then
               bind (load (vector_get (history w2) (history_len f - 1)) w2) (\<lambda>last_node w3.
               bind (load (Option.bind (block w3 last_node) (\<lambda>dst.
                             Option.bind (block w3 (current_buf f)) (\<lambda>src.
                               memcpy dst src num_chars_to_copy))) w3) (\<lambda>b w4.
                 Ok () (w4\<lparr>heap := (heap w4)[last_node := b]\<rparr>)))
             else Ok () w2) (\<lambda>u w5.
       bind (disable_raw_mode w5) (\<lambda>u w6. Ok (RL_SUCCESS, buf') w6))))"

definition print_prompt :: "string option \<Rightarrow> 'tm world \<Rightarrow> (unit, 'tm world) res" where
  "print_prompt prompt w =
     (case prompt of
        None \<Rightarrow> Ok () w
      | Some p \<Rightarrow>
          (case sys_write p w of
             (False, w1) \<Rightarrow> die ''failed to write to terminal (prompt)'' w1
           | (True, w1) \<Rightarrow> Ok () w1))"

text \<open>
  From the \<^verbatim>\<open>while\<close> loop to the end of \<^verbatim>\<open>rl_read_line\<close>, for the locals \<open>f\<close>: the
  loop, then either the \<^verbatim>\<open>return\<close> that left the loop, with the caller's buffer as it
  was, or the code at \<^verbatim>\<open>end_of_loop\<close>.
\<close>

definition after_loop ::
  "char list \<Rightarrow> ctl \<Rightarrow> 'tm world \<Rightarrow> (ReadLineResult \<times> char list, 'tm world) res" where
  "after_loop buf c w =
     (case c of
        Return r \<Rightarrow> Ok (r, buf) w
      | EndOfLoop f \<Rightarrow> end_of_loop buf f w
      | Continue f \<Rightarrow> end_of_loop buf f w)"

definition edit_and_return ::
  "char list \<Rightarrow> frame \<Rightarrow> 'tm world \<Rightarrow> (ReadLineResult \<times> char list, 'tm world) res" where
  "edit_and_return buf f w = bind (edit_loop f w) (after_loop buf)"

text \<open>
  \<^verbatim>\<open>rl_read_line(buf, buf_size, prompt)\<close>. \<open>buf\<close> holds the bytes of the caller's buffer
  (\<^verbatim>\<open>assert(buf != NULL)\<close> holds of every list), \<open>prompt\<close> is \<open>None\<close> for \<^verbatim>\<open>NULL\<close>.
  The result is the returned value with the caller's buffer after the call.
\<close>

definition rl_read_line ::
  "'tm libc \<Rightarrow> char list \<Rightarrow> nat \<Rightarrow> string option \<Rightarrow> 'tm world
     \<Rightarrow> (ReadLineResult \<times> char list, 'tm world) res" where
  "rl_read_line lc buf bsize prompt w =
     (if \<not> bsize > 0 then Halt Aborted w
      else
        bind (print_prompt prompt w) (\<lambda>u w1.
        bind (add_to_history buf bsize w1) (\<lambda>added w2.
          if \<not> added then die ''failed to add line to history'' w2
          else
            let hlen = vector_length (history w2);
                w3 = w2\<lparr>history_index := hlen - 1\<rparr>
            in
            bind (load (vector_get (history w3) (history_index w3)) w3) (\<lambda>cur w4.
            bind (store (poke (heap w4) cur 0 NUL) w4) (\<lambda>u w5.
            bind (enable_raw_mode lc w5) (\<lambda>u w6.
            bind (get_cursor_position lc w6) (\<lambda>pos w7.
              case pos of
                None \<Rightarrow> die ''failed to get cursor position'' w7
              | Some (row, col) \<Rightarrow>
                  edit_and_return buf
                    \<lparr>buf_size = bsize, history_len = hlen, current_buf = cur,
                      cx = col, cy = row, cursor_pos = 0, num_chars = 0\<rparr> w7)))))))"

subsection \<open>Escape sequences after the first byte\<close>




text \<open>
  A process that has not called \<^verbatim>\<open>rl_read_line\<close> yet, on a terminal in its original mode
  (\<open>False\<close>; \<open>True\<close> stands for the attributes of raw mode) where no system call fails.
\<close>

definition idle :: "bool world" where
  "idle = \<lparr>original_state = False, raw_mode_enabled = False, history = [], history_index = 0,
     heap = [], tty = False, out = [], reads = [], writes = [], tcgets = [], tcsets = [],
     mallocs = []\<rparr>"


subsection \<open>Results and halts\<close>

text \<open>
  \<open>post Q E r\<close>: a result \<open>r\<close> that returns satisfies \<open>Q\<close>, one that halts satisfies \<open>E\<close>.
\<close>

definition post :: "('a \<Rightarrow> 's \<Rightarrow> bool) \<Rightarrow> (halt \<Rightarrow> 's \<Rightarrow> bool) \<Rightarrow> ('a, 's) res \<Rightarrow> bool" where
  "post Q E r = (case r of Ok a s \<Rightarrow> Q a s | Halt h s \<Rightarrow> E h s)"

lemma post_Ok [simp]: "post Q E (Ok a s) = Q a s"
  by (simp add: post_def)

lemma post_Halt [simp]: "post Q E (Halt h s) = E h s"
  by (simp add: post_def)

lemma post_bind [simp]: "post Q E (bind r k) = post (\<lambda>a s. post Q E (k a s)) E r"
  by (cases r) (simp_all add: bind_def)

lemma post_die:
  "post Q E (die msg w) =
     (if raw_mode_enabled w then
        (if next_ok (tcsets w)
         then E (Exited msg)
                (w\<lparr>raw_mode_enabled := False, tty := original_state w, tcsets := tl (tcsets w)\<rparr>)
         else E (Exited ''failed to disable raw mode (tcsetattr)'')
                (w\<lparr>raw_mode_enabled := False, tcsets := tl (tcsets w)\<rparr>))
      else E (Exited msg) w)"
  by (simp add: die_def disable_raw_mode_with_def sys_tcsetattr_def)

lemma post_mono:
  "post Q E r \<Longrightarrow> (\<And>a s. Q a s \<Longrightarrow> Q' a s) \<Longrightarrow> (\<And>h s. E h s \<Longrightarrow> E' h s) \<Longrightarrow> post Q' E' r"
  by (cases r) simp_all

lemma post_store [simp]:
  "post Q E (store ho w) = (case ho of None \<Rightarrow> E Undefined w | Some h \<Rightarrow> Q () (w\<lparr>heap := h\<rparr>))"
  by (simp add: store_def split: option.splits)

lemma post_load [simp]:
  "post Q E (load xo w) = (case xo of None \<Rightarrow> E Undefined w | Some x \<Rightarrow> Q x w)"
  by (simp add: load_def split: option.splits)

lemma die_Exited: "\<exists>m w'. die msg w = Halt (Exited m) w'"
  by (simp add: die_def disable_raw_mode_with_def sys_tcsetattr_def)

lemma post_die_exited [simp]:
  "post Q (\<lambda>h w'. (\<exists>m. h = Exited m) \<and> P) (die msg w :: ('a, 'tm world) res) = P"
proof -
  obtain m w' where "(die msg w :: ('a, 'tm world) res) = Halt (Exited m) w'"
    using die_Exited by blast
  then show ?thesis by simp
qed

lemma post_die_exited' [simp]:
  "post Q (\<lambda>h w'. \<exists>m. h = Exited m) (die msg w :: ('a, 'tm world) res)"
proof -
  obtain m w' where "(die msg w :: ('a, 'tm world) res) = Halt (Exited m) w'"
    using die_Exited by blast
  then show ?thesis by simp
qed

lemma next_ok_all [simp]: "False \<notin> set oks \<Longrightarrow> next_ok oks"
  by (cases oks) (auto simp: next_ok_def)

lemma all_tl [simp]: "False \<notin> set oks \<Longrightarrow> False \<notin> set (tl oks)"
  by (cases oks) auto

subsection \<open>What each key does to the line\<close>

text \<open>
  The block of the live line after the memory operations of a printable key and of
  Backspace, with \<open>cp\<close> the cursor offset and \<open>n\<close> the length before the key: \<open>shifted\<close>
  is the block after \<^verbatim>\<open>memmove\<close>.
\<close>

definition shifted :: "char list \<Rightarrow> nat \<Rightarrow> nat \<Rightarrow> nat \<Rightarrow> char list" where
  "shifted b d s n = take d b @ take n (drop s b) @ drop (d + n) b"

definition line_after_insert :: "char list \<Rightarrow> nat \<Rightarrow> nat \<Rightarrow> char \<Rightarrow> char list" where
  "line_after_insert b cp n c =
     ((if cp < n then shifted b (cp + 1) cp (n - cp + 1) else b)[cp := c])[n + 1 := NUL]"

definition line_after_backspace :: "char list \<Rightarrow> nat \<Rightarrow> nat \<Rightarrow> char list" where
  "line_after_backspace b cp n = (shifted b (cp - 1) cp (n - (cp - 1)))[n - 1 := NUL]"

text \<open>
  A step that is \<open>quiet\<close> changed at most the heap and what was written to the terminal.
\<close>

definition quiet :: "'tm world \<Rightarrow> 'tm world \<Rightarrow> bool" where
  "quiet w w' \<longleftrightarrow>
     kept w w' \<and> history_index w' = history_index w \<and> tty w' = tty w \<and>
     tcsets w' = tcsets w \<and> (False \<notin> set (writes w) \<longrightarrow> False \<notin> set (writes w'))"

lemma quiet_refl [simp]: "quiet w w"
  by (simp add: quiet_def)

lemma on_printable_spec:
  assumes "current_buf f < length (heap w)"
    and "cursor_pos f \<le> num_chars f"
    and "num_chars f + 2 \<le> length (heap w ! current_buf f)"
  shows "post
     (\<lambda>c w'. c = Continue (f\<lparr>cursor_pos := cursor_pos f + 1, num_chars := num_chars f + 1\<rparr>) \<and>
        heap w' = (heap w)[current_buf f :=
          line_after_insert (heap w ! current_buf f) (cursor_pos f) (num_chars f) (low_byte key)] \<and>
        quiet w w')
     (\<lambda>h w'. (\<exists>m. h = Exited m) \<and> False \<in> set (writes w))
     (on_printable key f w)"
proof (cases "False \<in> set (writes w)")
  case True
  with assms show ?thesis
    by (simp add: on_printable_def shift_tail_def sys_write_def move_cursor_to_def Let_def
        poke_def memmove_def block_def slice_def line_after_insert_def shifted_def quiet_def kept_def; arith)
next
  case False
  with assms show ?thesis
    by (simp add: on_printable_def shift_tail_def sys_write_def move_cursor_to_def Let_def
        poke_def memmove_def block_def slice_def line_after_insert_def shifted_def quiet_def kept_def; arith)
qed


lemmas io_defs = sys_write_def move_cursor_to_def move_cursor_left_def move_cursor_right_def
  repaint_line_def poke_def memmove_def block_def slice_def vector_get_def Let_def

lemma on_backspace_spec:
  assumes "current_buf f < length (heap w)"
    and "cursor_pos f \<le> num_chars f"
    and "num_chars f < length (heap w ! current_buf f)"
  shows "post
     (\<lambda>c w'. if cursor_pos f = 0 then c = Continue f \<and> w' = w
        else c = Continue (f\<lparr>cursor_pos := cursor_pos f - 1, num_chars := num_chars f - 1\<rparr>) \<and>
          heap w' = (heap w)[current_buf f :=
            line_after_backspace (heap w ! current_buf f) (cursor_pos f) (num_chars f)] \<and>
          quiet w w')
     (\<lambda>h w'. (\<exists>m. h = Exited m) \<and> False \<in> set (writes w))
     (on_backspace f w)"
proof (cases "False \<in> set (writes w)")
  case True
  with assms show ?thesis
    by (simp add: on_backspace_def io_defs line_after_backspace_def shifted_def quiet_def kept_def;
        arith)
next
  case False
  with assms show ?thesis
    by (simp add: on_backspace_def io_defs line_after_backspace_def shifted_def quiet_def kept_def;
        arith)
qed

lemma strlen_Some: "strlen b = Some n \<Longrightarrow> n < length b \<and> b ! n = NUL"
  by (induction b arbitrary: n) (auto split: if_splits)

lemma strlen_NUL: "NUL \<in> set b \<Longrightarrow> \<exists>n. strlen b = Some n"
  by (induction b) auto

text \<open>The test \<^verbatim>\<open>// validate the history index before moving\<close> of the arrow keys.\<close>

definition at_boundary :: "int \<Rightarrow> frame \<Rightarrow> 'tm world \<Rightarrow> bool" where
  "at_boundary key f w \<longleftrightarrow>
     (key = KEY_ARROW_UP \<and> history_index w = 0) \<or>
     (key = KEY_ARROW_DOWN \<and> history_index w = history_len f - 1)"

lemma on_arrow_noop: "at_boundary key f w \<Longrightarrow> on_arrow_up_down key f w = Ok (Continue f) w"
  by (simp add: on_arrow_up_down_def at_boundary_def)

lemma on_arrow_move:
  assumes nb: "\<not> at_boundary key f w"
    and i: "i = (if key = KEY_ARROW_UP then history_index w - 1 else history_index w + 1)"
    and il: "i < length (history w)"
    and p: "history w ! i < length (heap w)"
    and len: "strlen (heap w ! (history w ! i)) = Some len"
  shows "post
     (\<lambda>c w'. c = Continue (f\<lparr>current_buf := history w ! i, cursor_pos := len, num_chars := len\<rparr>) \<and>
        history_index w' = i \<and> heap w' = heap w \<and> kept w w' \<and> tty w' = tty w \<and>
        tcsets w' = tcsets w \<and> (False \<notin> set (writes w) \<longrightarrow> False \<notin> set (writes w')))
     (\<lambda>h w'. (\<exists>m. h = Exited m) \<and> False \<in> set (writes w))
     (on_arrow_up_down key f w)"
proof -
  have lenb: "len < length (heap w ! (history w ! i))"
    using len strlen_Some by blast
  have c: "\<not> ((key = KEY_ARROW_UP \<and> history_index w = 0) \<or>
              (key = KEY_ARROW_DOWN \<and> history_index w = history_len f - 1))"
    using nb by (simp add: at_boundary_def)
  have unf: "on_arrow_up_down key f w =
      bind (load (vector_get (history w) i) (w\<lparr>history_index := i\<rparr>)) (\<lambda>p w2.
        bind (load (Option.bind (block w2 p) strlen) w2) (\<lambda>current_buf_len w3.
        bind (repaint_line (cy f) (cx f) p current_buf_len w3) (\<lambda>ok w4.
          if \<not> ok then die ''failed to repaint line (ARROW_UP/DOWN)'' w4
          else Ok (Continue (f\<lparr>current_buf := p, cursor_pos := current_buf_len,
                                 num_chars := current_buf_len\<rparr>)) w4)))"
    unfolding on_arrow_up_down_def by (subst if_not_P [OF c]) (simp add: Let_def i)
  show ?thesis
  proof (cases "False \<in> set (writes w)")
    case True
    with il p len lenb show ?thesis
      unfolding unf by (simp add: io_defs kept_def)
  next
    case False
    with il p len lenb show ?thesis
      unfolding unf by (simp add: io_defs kept_def)
  qed
qed


subsection \<open>The invariant of the edit loop\<close>

text \<open>
  \<open>hist_ok n\<close> is the history of the spec's data model for a session that reads with one
  buffer size \<open>n\<close>: the lines are different blocks of \<open>n\<close> bytes and each holds a
  terminator. \<open>line_inv\<close> is the invariant of the line buffer: the length is below the
  capacity of the block, the cursor is not beyond the length, and the byte at the length is
  the terminator. \<open>ed_inv\<close> adds that the locals describe the history and that the live
  line is the entry at \<open>history_index\<close>.
\<close>

definition hist_ok :: "nat \<Rightarrow> 'tm world \<Rightarrow> bool" where
  "hist_ok n w \<longleftrightarrow>
     distinct (history w) \<and>
     (\<forall>p \<in> set (history w). p < length (heap w) \<and> length (heap w ! p) = n \<and> NUL \<in> set (heap w ! p))"

definition line_inv :: "frame \<Rightarrow> 'tm world \<Rightarrow> bool" where
  "line_inv f w \<longleftrightarrow>
     current_buf f < length (heap w) \<and>
     num_chars f < length (heap w ! current_buf f) \<and>
     cursor_pos f \<le> num_chars f \<and>
     heap w ! current_buf f ! num_chars f = NUL"

definition ed_inv :: "frame \<Rightarrow> 'tm world \<Rightarrow> bool" where
  "ed_inv f w \<longleftrightarrow>
     hist_ok (buf_size f) w \<and> history_len f = length (history w) \<and>
     history_index w < length (history w) \<and>
     current_buf f = history w ! history_index w \<and> line_inv f w"

lemma ed_inv_line: "ed_inv f w \<Longrightarrow> line_inv f w"
  by (simp add: ed_inv_def)

lemma line_inv_facts:
  assumes "line_inv f w"
  shows "current_buf f < length (heap w)" and "num_chars f < length (heap w ! current_buf f)"
    and "cursor_pos f \<le> num_chars f" and "heap w ! current_buf f ! num_chars f = NUL"
  using assms unfolding line_inv_def by blast+

lemma ctrl_keys:
  "CTRL_KEY (CHR ''b'') = 2" "CTRL_KEY (CHR ''c'') = 3" "CTRL_KEY (CHR ''d'') = 4"
  "CTRL_KEY (CHR ''f'') = 6"
  by (simp_all add: CTRL_KEY_def)

lemmas key_defs = KEY_ENTER_def KEY_ESC_def KEY_BACKSPACE_def KEY_ARROW_UP_def
  KEY_ARROW_DOWN_def KEY_ARROW_RIGHT_def KEY_ARROW_LEFT_def KEY_DELETE_def KEY_HOME_def
  KEY_END_def KEY_PAGE_UP_def KEY_PAGE_DOWN_def ctrl_keys

lemma length_shifted:
  "d + n \<le> length b \<Longrightarrow> s + n \<le> length b \<Longrightarrow> length (shifted b d s n) = length b"
  by (simp add: shifted_def)

lemma length_line_after_insert:
  "cp \<le> n \<Longrightarrow> n + 2 \<le> length b \<Longrightarrow> length (line_after_insert b cp n c) = length b"
  by (simp add: line_after_insert_def length_shifted)

lemma length_line_after_backspace:
  "0 < cp \<Longrightarrow> cp \<le> n \<Longrightarrow> n < length b \<Longrightarrow> length (line_after_backspace b cp n) = length b"
  by (simp add: line_after_backspace_def length_shifted)

lemma nth_line_after_insert:
  "cp \<le> n \<Longrightarrow> n + 2 \<le> length b \<Longrightarrow> line_after_insert b cp n c ! (n + 1) = NUL"
  by (simp add: line_after_insert_def length_shifted)

lemma nth_line_after_backspace:
  "0 < cp \<Longrightarrow> cp \<le> n \<Longrightarrow> n < length b \<Longrightarrow> line_after_backspace b cp n ! (n - 1) = NUL"
  by (simp add: line_after_backspace_def length_shifted)

lemma hist_ok_update:
  assumes "hist_ok n w" and "history w' = history w" and "heap w' = (heap w)[p := b]"
    and "length b = n" and "NUL \<in> set b"
  shows "hist_ok n w'"
proof -
  have "pa < length (heap w') \<and> length (heap w' ! pa) = n \<and> NUL \<in> set (heap w' ! pa)"
    if "pa \<in> set (history w)" for pa
  proof -
    from that assms(1) have pa: "pa < length (heap w)" "length (heap w ! pa) = n"
      "NUL \<in> set (heap w ! pa)"
      by (simp_all add: hist_ok_def)
    show ?thesis
      using pa assms(3-5) by (cases "pa = p") simp_all
  qed
  then show ?thesis
    using assms(1,2) by (simp add: hist_ok_def)
qed

lemma hist_ok_same:
  assumes "hist_ok n w" and "history w' = history w" and "heap w' = heap w"
  shows "hist_ok n w'"
  using assms by (simp add: hist_ok_def)

lemma ed_inv_room:
  assumes "ed_inv f w" and "num_chars f < buf_size f - 1"
  shows "num_chars f + 2 \<le> length (heap w ! current_buf f)"
proof -
  have "current_buf f \<in> set (history w)"
    using assms(1) by (simp add: ed_inv_def)
  then have "length (heap w ! current_buf f) = buf_size f"
    using assms(1) by (simp add: ed_inv_def hist_ok_def)
  with assms(2) show ?thesis by simp
qed

lemma on_printable_inv:
  assumes inv: "ed_inv f w" and guard: "num_chars f < buf_size f - 1"
  shows "post (\<lambda>c w'. \<forall>f'. c = Continue f' \<longrightarrow> ed_inv f' w') (\<lambda>h w'. \<exists>m. h = Exited m)
           (on_printable key f w)"
proof -
  let ?b = "heap w ! current_buf f"
  let ?b' = "line_after_insert ?b (cursor_pos f) (num_chars f) (low_byte key)"
  have cb: "current_buf f < length (heap w)" and cn: "cursor_pos f \<le> num_chars f"
    using inv by (simp_all add: ed_inv_def line_inv_def)
  have room: "num_chars f + 2 \<le> length ?b"
    using ed_inv_room [OF inv guard] .
  have mem: "current_buf f \<in> set (history w)"
    using inv by (simp add: ed_inv_def)
  have lb: "length ?b = buf_size f"
    using inv mem by (simp add: ed_inv_def hist_ok_def)
  have l': "length ?b' = buf_size f"
    using length_line_after_insert [OF cn room] lb by simp
  have n': "?b' ! (num_chars f + 1) = NUL"
    using nth_line_after_insert [OF cn room] .
  have nul: "NUL \<in> set ?b'"
    using n' l' lb room by (metis Suc_eq_plus1 Suc_le_lessD add_2_eq_Suc' nth_mem)
  show ?thesis
  proof (rule post_mono [OF on_printable_spec [OF cb cn room, of key]])
    fix c w'
    assume a: "c = Continue (f\<lparr>cursor_pos := cursor_pos f + 1, num_chars := num_chars f + 1\<rparr>) \<and>
        heap w' = (heap w)[current_buf f := ?b'] \<and> quiet w w'"
    then have h: "heap w' = (heap w)[current_buf f := ?b']" and q: "quiet w w'" by simp_all
    have hk: "history w' = history w" "history_index w' = history_index w"
      using q by (simp_all add: quiet_def kept_def)
    have "hist_ok (buf_size f) w'"
      using hist_ok_update [OF _ hk(1) h l' nul] inv by (simp add: ed_inv_def)
    moreover have "line_inv (f\<lparr>cursor_pos := cursor_pos f + 1, num_chars := num_chars f + 1\<rparr>) w'"
      using h cb cn room l' lb n' by (simp add: line_inv_def)
    ultimately have "ed_inv (f\<lparr>cursor_pos := cursor_pos f + 1, num_chars := num_chars f + 1\<rparr>) w'"
      using inv hk by (simp add: ed_inv_def)
    with a show "\<forall>f'. c = Continue f' \<longrightarrow> ed_inv f' w'" by simp
  next
    fix h w'
    assume "(\<exists>m. h = Exited m) \<and> False \<in> set (writes w)"
    then show "\<exists>m. h = Exited m" by simp
  qed
qed


lemma on_backspace_inv:
  assumes inv: "ed_inv f w"
  shows "post (\<lambda>c w'. \<forall>f'. c = Continue f' \<longrightarrow> ed_inv f' w') (\<lambda>h w'. \<exists>m. h = Exited m)
           (on_backspace f w)"
proof -
  let ?b = "heap w ! current_buf f"
  let ?b' = "line_after_backspace ?b (cursor_pos f) (num_chars f)"
  let ?f' = "f\<lparr>cursor_pos := cursor_pos f - 1, num_chars := num_chars f - 1\<rparr>"
  have cb: "current_buf f < length (heap w)" and cn: "cursor_pos f \<le> num_chars f"
    and nl: "num_chars f < length ?b"
    using line_inv_facts [OF ed_inv_line [OF inv]] by blast+
  have mem: "current_buf f \<in> set (history w)"
    using inv by (simp add: ed_inv_def)
  have lb: "length ?b = buf_size f"
    using inv mem by (simp add: ed_inv_def hist_ok_def)
  show ?thesis
  proof (rule post_mono [OF on_backspace_spec [OF cb cn nl]])
    fix c w'
    assume a: "if cursor_pos f = 0 then c = Continue f \<and> w' = w
        else c = Continue ?f' \<and> heap w' = (heap w)[current_buf f := ?b'] \<and> quiet w w'"
    show "\<forall>f'. c = Continue f' \<longrightarrow> ed_inv f' w'"
    proof (cases "cursor_pos f = 0")
      case True
      with a inv show ?thesis by simp
    next
      case False
      then have pos: "0 < cursor_pos f" by simp
      from a False have c: "c = Continue ?f'" and h: "heap w' = (heap w)[current_buf f := ?b']"
        and q: "quiet w w'" by simp_all
      have hk: "history w' = history w" "history_index w' = history_index w"
        using q by (simp_all add: quiet_def kept_def)
      have l': "length ?b' = buf_size f"
        using length_line_after_backspace [OF pos cn nl] lb by simp
      have n': "?b' ! (num_chars f - 1) = NUL"
        using nth_line_after_backspace [OF pos cn nl] .
      have "num_chars f - 1 < length ?b'"
        using l' lb nl by simp
      then have nul: "NUL \<in> set ?b'"
        using n' by (metis nth_mem)
      have "hist_ok (buf_size f) w'"
        using hist_ok_update [OF _ hk(1) h l' nul] inv by (simp add: ed_inv_def)
      moreover have "line_inv ?f' w'"
        using h cb cn nl l' lb n' pos by (simp add: line_inv_def; arith)
      ultimately have "ed_inv ?f' w'"
        using inv hk by (simp add: ed_inv_def)
      with c show ?thesis by simp
    qed
  next
    fix h w'
    assume "(\<exists>m. h = Exited m) \<and> False \<in> set (writes w)"
    then show "\<exists>m. h = Exited m" by simp
  qed
qed

lemma arrow_target:
  assumes inv: "ed_inv f w" and nb: "\<not> at_boundary key f w"
    and key: "key = KEY_ARROW_UP \<or> key = KEY_ARROW_DOWN"
    and i: "i = (if key = KEY_ARROW_UP then history_index w - 1 else history_index w + 1)"
  shows "i < length (history w) \<and> history w ! i < length (heap w) \<and>
         (\<exists>len. strlen (heap w ! (history w ! i)) = Some len)"
proof -
  have ne: "KEY_ARROW_UP \<noteq> KEY_ARROW_DOWN"
    by (simp add: KEY_ARROW_UP_def KEY_ARROW_DOWN_def)
  have hl: "history_len f = length (history w)" "history_index w < length (history w)"
    using inv by (simp_all add: ed_inv_def)
  have il: "i < length (history w)"
  proof (cases "key = KEY_ARROW_UP")
    case True
    then show ?thesis using i hl by simp
  next
    case False
    with key have d: "key = KEY_ARROW_DOWN" by simp
    with nb have "history_index w \<noteq> history_len f - 1"
      by (simp add: at_boundary_def)
    with hl i False show ?thesis by simp
  qed
  then have "history w ! i \<in> set (history w)" by simp
  then have "history w ! i < length (heap w)" "NUL \<in> set (heap w ! (history w ! i))"
    using inv by (simp_all add: ed_inv_def hist_ok_def)
  with il strlen_NUL show ?thesis by blast
qed

lemma on_arrow_up_down_inv:
  assumes inv: "ed_inv f w" and key: "key = KEY_ARROW_UP \<or> key = KEY_ARROW_DOWN"
  shows "post (\<lambda>c w'. \<forall>f'. c = Continue f' \<longrightarrow> ed_inv f' w') (\<lambda>h w'. \<exists>m. h = Exited m)
           (on_arrow_up_down key f w)"
proof (cases "at_boundary key f w")
  case True
  then show ?thesis using inv by (simp add: on_arrow_noop)
next
  case False
  define i where "i = (if key = KEY_ARROW_UP then history_index w - 1 else history_index w + 1)"
  from arrow_target [OF inv False key i_def] obtain len where
    il: "i < length (history w)" and p: "history w ! i < length (heap w)"
    and len: "strlen (heap w ! (history w ! i)) = Some len"
    by blast
  let ?f' = "f\<lparr>current_buf := history w ! i, cursor_pos := len, num_chars := len\<rparr>"
  show ?thesis
  proof (rule post_mono [OF on_arrow_move [OF False i_def il p len]])
    fix c w'
    assume a: "c = Continue ?f' \<and> history_index w' = i \<and> heap w' = heap w \<and> kept w w' \<and>
        tty w' = tty w \<and> tcsets w' = tcsets w \<and>
        (False \<notin> set (writes w) \<longrightarrow> False \<notin> set (writes w'))"
    then have hk: "history w' = history w" "heap w' = heap w" "history_index w' = i"
      by (simp_all add: kept_def)
    have "hist_ok (buf_size f) w'"
      using hist_ok_same [OF _ hk(1,2)] inv by (simp add: ed_inv_def)
    moreover have "line_inv ?f' w'"
      using strlen_Some [OF len] p hk by (simp add: line_inv_def)
    ultimately have "ed_inv ?f' w'"
      using inv hk il by (simp add: ed_inv_def)
    with a show "\<forall>f'. c = Continue f' \<longrightarrow> ed_inv f' w'" by simp
  next
    fix h w'
    assume "(\<exists>m. h = Exited m) \<and> False \<in> set (writes w)"
    then show "\<exists>m. h = Exited m" by simp
  qed
qed

lemma ed_inv_cursor:
  assumes "ed_inv f w" and "heap w' = heap w" and "history w' = history w"
    and "history_index w' = history_index w" and "c \<le> num_chars f"
  shows "ed_inv (f\<lparr>cursor_pos := c\<rparr>) w'"
  using assms unfolding ed_inv_def line_inv_def hist_ok_def by auto

lemma on_left_inv:
  assumes inv: "ed_inv f w"
  shows "post (\<lambda>c w'. \<forall>f'. c = Continue f' \<longrightarrow> ed_inv f' w') (\<lambda>h w'. \<exists>m. h = Exited m)
           (on_left f w)"
proof -
  have cn: "cursor_pos f \<le> num_chars f"
    using inv by (simp add: ed_inv_def line_inv_def)
  show ?thesis
    using inv cn
    by (auto simp: on_left_def move_cursor_left_def sys_write_def intro!: ed_inv_cursor)
qed

lemma on_right_inv:
  assumes inv: "ed_inv f w"
  shows "post (\<lambda>c w'. \<forall>f'. c = Continue f' \<longrightarrow> ed_inv f' w') (\<lambda>h w'. \<exists>m. h = Exited m)
           (on_right f w)"
proof -
  have cn: "cursor_pos f \<le> num_chars f"
    using inv by (simp add: ed_inv_def line_inv_def)
  show ?thesis
    using inv cn
    by (auto simp: on_right_def move_cursor_right_def sys_write_def intro!: ed_inv_cursor)
qed

lemma disable_raw_mode_post [simp]:
  "post (\<lambda>u w'. True) (\<lambda>h w'. \<exists>m. h = Exited m) (disable_raw_mode w)"
  by (simp add: disable_raw_mode_def disable_raw_mode_with_def sys_tcsetattr_def)

lemma on_enter_inv:
  "post (\<lambda>c w'. \<forall>f'. c = Continue f' \<longrightarrow> ed_inv f' w') (\<lambda>h w'. \<exists>m. h = Exited m) (on_enter f w)"
  by (simp add: on_enter_def sys_write_def)

lemma on_ctrl_c_inv:
  "post (\<lambda>c w'. \<forall>f'. c = Continue f' \<longrightarrow> ed_inv f' w') (\<lambda>h w'. \<exists>m. h = Exited m) (on_ctrl_c f w)"
  by (simp add: on_ctrl_c_def disable_raw_mode_def disable_raw_mode_with_def sys_tcsetattr_def)

lemma on_ctrl_d_inv:
  "post (\<lambda>c w'. \<forall>f'. c = Continue f' \<longrightarrow> ed_inv f' w') (\<lambda>h w'. \<exists>m. h = Exited m) (on_ctrl_d f w)"
  by (simp add: on_ctrl_d_def disable_raw_mode_def disable_raw_mode_with_def sys_tcsetattr_def)

lemma loop_body_cases:
  assumes "isprint key \<Longrightarrow> P (on_printable key f w)"
    and "P (on_enter f w)" and "P (on_ctrl_c f w)" and "P (on_ctrl_d f w)"
    and "P (on_backspace f w)"
    and "key = KEY_ARROW_UP \<or> key = KEY_ARROW_DOWN \<Longrightarrow> P (on_arrow_up_down key f w)"
    and "P (on_left f w)" and "P (on_right f w)" and "P (Ok (Continue f) w)"
  shows "P (loop_body key f w)"
  unfolding loop_body_def using assms by (simp split: if_split)

lemma loop_body_inv:
  assumes inv: "ed_inv f w" and guard: "num_chars f < buf_size f - 1"
  shows "post (\<lambda>c w'. \<forall>f'. c = Continue f' \<longrightarrow> ed_inv f' w') (\<lambda>h w'. \<exists>m. h = Exited m)
           (loop_body key f w)"
proof (rule loop_body_cases)
  show "post (\<lambda>c w'. \<forall>f'. c = Continue f' \<longrightarrow> ed_inv f' w') (\<lambda>h w'. \<exists>m. h = Exited m)
     (Ok (Continue f) w)"
    using inv by simp
qed (rule on_printable_inv [OF inv guard] on_backspace_inv [OF inv] on_arrow_up_down_inv [OF inv]
    on_left_inv [OF inv] on_right_inv [OF inv] on_enter_inv on_ctrl_c_inv on_ctrl_d_inv
    | assumption)+


lemma post_Ok_ex: "post Q (\<lambda>h s. False) r \<Longrightarrow> \<exists>a s. r = Ok a s \<and> Q a s"
  by (cases r) simp_all

lemma post_no_writes_fail:
  assumes "post Q (\<lambda>h w'. (\<exists>m. h = Exited m) \<and> False \<in> set (writes w)) r"
    and "False \<notin> set (writes w)"
  shows "\<exists>a s. r = Ok a s \<and> Q a s"
  using assms by (cases r) simp_all

lemma post_Continue:
  "post Q E r \<Longrightarrow> r = Ok a s \<Longrightarrow> Q a s"
  by simp

lemma post_HaltD:
  "post Q E r \<Longrightarrow> r = Halt h s \<Longrightarrow> E h s"
  by simp

lemma loop_body_arrow_up: "loop_body KEY_ARROW_UP f w = on_arrow_up_down KEY_ARROW_UP f w"
  by (simp add: loop_body_def isprint_def key_defs)

lemma loop_body_arrow_down: "loop_body KEY_ARROW_DOWN f w = on_arrow_up_down KEY_ARROW_DOWN f w"
  by (simp add: loop_body_def isprint_def key_defs)

text \<open>
  In a session that reads with one buffer size (\<open>ed_inv\<close>: every entry of the history has
  the \<^verbatim>\<open>buf_size\<close> of the current call and holds a terminator), with the loop condition
  true, whatever key is handled (a printable byte, Backspace, the arrows, Ctrl+B and
  Ctrl+F, history recall, or any other key): if the loop goes on, the invariant holds
  again, so the length is below the capacity of the live block, the cursor is between 0
  and the length, and the block has its terminator at the length; and the round never
  leaves the blocks of the heap, it halts only through \<^verbatim>\<open>die\<close>. Without \<open>hist_ok\<close> this
  fails: see the last subsection, on lines of another size.
\<close>

lemma edit_loop_keeps_line_invariant:
  assumes "ed_inv f w" and "num_chars f < buf_size f - 1"
  shows "(\<forall>f' w'. loop_body key f w = Ok (Continue f') w' \<longrightarrow>
            ed_inv f' w' \<and> length (heap w' ! current_buf f') = buf_size f' \<and>
            num_chars f' < length (heap w' ! current_buf f') \<and>
            cursor_pos f' \<le> num_chars f' \<and>
            heap w' ! current_buf f' ! num_chars f' = NUL) \<and>
         (\<forall>h w'. loop_body key f w = Halt h w' \<longrightarrow> (\<exists>m. h = Exited m))"
proof (intro conjI allI impI)
  fix f' w'
  assume a: "loop_body key f w = Ok (Continue f') w'"
  from post_Continue [OF loop_body_inv [OF assms] a]
  have inv': "ed_inv f' w'" by simp
  then have "current_buf f' \<in> set (history w')"
    by (simp add: ed_inv_def)
  then show "length (heap w' ! current_buf f') = buf_size f'"
    using inv' by (simp add: ed_inv_def hist_ok_def)
  show "ed_inv f' w'" by (rule inv')
  show "num_chars f' < length (heap w' ! current_buf f')"
    and "cursor_pos f' \<le> num_chars f'"
    and "heap w' ! current_buf f' ! num_chars f' = NUL"
    using line_inv_facts [OF ed_inv_line [OF inv']] by blast+
next
  fix h w'
  assume "loop_body key f w = Halt h w'"
  from post_HaltD [OF loop_body_inv [OF assms] this]
  show "\<exists>m. h = Exited m" .
qed

text \<open>
  In a session that reads with one buffer size (\<open>ed_inv\<close>, so every entry holds a
  terminator): Arrow-Up at \<open>history_index = 0\<close> and Arrow-Down at the tail index leave the
  locals and the whole state as they are. Otherwise (with no write to the terminal failing)
  the key moves \<open>history_index\<close> by exactly one, up or down, makes the entry at the new
  index the live buffer, and sets the length and the cursor offset to the length of the
  string in that entry; the history and its lines are unchanged. An entry without a
  terminator is another matter: see the subsection on truncation.
\<close>

lemma arrow_keys_recall_history:
  assumes inv: "ed_inv f w" and wr: "False \<notin> set (writes w)"
  shows "(history_index w = 0 \<longrightarrow> loop_body KEY_ARROW_UP f w = Ok (Continue f) w) \<and>
         (history_index w = length (history w) - 1 \<longrightarrow>
            loop_body KEY_ARROW_DOWN f w = Ok (Continue f) w) \<and>
         (history_index w \<noteq> 0 \<longrightarrow>
            (\<exists>w' len.
               loop_body KEY_ARROW_UP f w =
                 Ok (Continue (f\<lparr>current_buf := history w ! (history_index w - 1),
                                  cursor_pos := len, num_chars := len\<rparr>)) w' \<and>
               strlen (heap w ! (history w ! (history_index w - 1))) = Some len \<and>
               history_index w' = history_index w - 1 \<and>
               heap w' = heap w \<and> history w' = history w)) \<and>
         (history_index w \<noteq> length (history w) - 1 \<longrightarrow>
            (\<exists>w' len.
               loop_body KEY_ARROW_DOWN f w =
                 Ok (Continue (f\<lparr>current_buf := history w ! (history_index w + 1),
                                  cursor_pos := len, num_chars := len\<rparr>)) w' \<and>
               strlen (heap w ! (history w ! (history_index w + 1))) = Some len \<and>
               history_index w' = history_index w + 1 \<and>
               heap w' = heap w \<and> history w' = history w))"
proof -
  have hl: "history_len f = length (history w)"
    using inv by (simp add: ed_inv_def)
  have ne: "KEY_ARROW_UP \<noteq> KEY_ARROW_DOWN" "KEY_ARROW_DOWN \<noteq> KEY_ARROW_UP"
    by (simp_all add: key_defs)
  have moved: "\<exists>w' len.
       on_arrow_up_down key f w =
         Ok (Continue (f\<lparr>current_buf := history w ! i, cursor_pos := len, num_chars := len\<rparr>)) w' \<and>
       strlen (heap w ! (history w ! i)) = Some len \<and> history_index w' = i \<and>
       heap w' = heap w \<and> history w' = history w"
    if nb: "\<not> at_boundary key f w" and key: "key = KEY_ARROW_UP \<or> key = KEY_ARROW_DOWN"
      and i: "i = (if key = KEY_ARROW_UP then history_index w - 1 else history_index w + 1)"
    for key i
  proof -
    from arrow_target [OF inv nb key i] obtain len where
      il: "i < length (history w)" and p: "history w ! i < length (heap w)"
      and len: "strlen (heap w ! (history w ! i)) = Some len"
      by blast
    from post_no_writes_fail [OF on_arrow_move [OF nb i il p len] wr]
    show ?thesis using len by (auto simp: kept_def)
  qed
  have up0: "history_index w = 0 \<longrightarrow> loop_body KEY_ARROW_UP f w = Ok (Continue f) w"
    by (simp add: loop_body_arrow_up on_arrow_noop at_boundary_def)
  have down0: "history_index w = length (history w) - 1 \<longrightarrow>
      loop_body KEY_ARROW_DOWN f w = Ok (Continue f) w"
    by (simp add: loop_body_arrow_down on_arrow_noop at_boundary_def hl)
  have up1: "history_index w \<noteq> 0 \<longrightarrow>
            (\<exists>w' len.
               loop_body KEY_ARROW_UP f w =
                 Ok (Continue (f\<lparr>current_buf := history w ! (history_index w - 1),
                                  cursor_pos := len, num_chars := len\<rparr>)) w' \<and>
               strlen (heap w ! (history w ! (history_index w - 1))) = Some len \<and>
               history_index w' = history_index w - 1 \<and>
               heap w' = heap w \<and> history w' = history w)"
  proof
    assume "history_index w \<noteq> 0"
    then have "\<not> at_boundary KEY_ARROW_UP f w"
      by (simp add: at_boundary_def ne)
    from moved [OF this, of "history_index w - 1"] show "\<exists>w' len.
               loop_body KEY_ARROW_UP f w =
                 Ok (Continue (f\<lparr>current_buf := history w ! (history_index w - 1),
                                  cursor_pos := len, num_chars := len\<rparr>)) w' \<and>
               strlen (heap w ! (history w ! (history_index w - 1))) = Some len \<and>
               history_index w' = history_index w - 1 \<and>
               heap w' = heap w \<and> history w' = history w"
      by (simp add: loop_body_arrow_up)
  qed
  have down1: "history_index w \<noteq> length (history w) - 1 \<longrightarrow>
            (\<exists>w' len.
               loop_body KEY_ARROW_DOWN f w =
                 Ok (Continue (f\<lparr>current_buf := history w ! (history_index w + 1),
                                  cursor_pos := len, num_chars := len\<rparr>)) w' \<and>
               strlen (heap w ! (history w ! (history_index w + 1))) = Some len \<and>
               history_index w' = history_index w + 1 \<and>
               heap w' = heap w \<and> history w' = history w)"
  proof
    assume "history_index w \<noteq> length (history w) - 1"
    then have "\<not> at_boundary KEY_ARROW_DOWN f w"
      by (simp add: at_boundary_def ne hl)
    from moved [OF this, of "history_index w + 1"] show "\<exists>w' len.
               loop_body KEY_ARROW_DOWN f w =
                 Ok (Continue (f\<lparr>current_buf := history w ! (history_index w + 1),
                                  cursor_pos := len, num_chars := len\<rparr>)) w' \<and>
               strlen (heap w ! (history w ! (history_index w + 1))) = Some len \<and>
               history_index w' = history_index w + 1 \<and>
               heap w' = heap w \<and> history w' = history w"
      by (simp add: loop_body_arrow_down ne)
  qed
  from up0 down0 up1 down1 show ?thesis by blast
qed


text \<open>
  A session in its second call, reading with a buffer of 4 bytes: the first line is
  \<^verbatim>\<open>ab\<close>, the new line is empty and still holds what the caller's buffer held.
\<close>

definition editing :: "bool world" where
  "editing = idle\<lparr>raw_mode_enabled := True, tty := True, history := [0, 1], history_index := 1,
     heap := [''ab'' @ [NUL, NUL], [NUL, CHR ''x'', CHR ''y'', CHR ''z'']]\<rparr>"

definition at_tail :: frame where
  "at_tail = \<lparr>buf_size = 4, history_len = 2, current_buf = 1, cx = 3, cy = 5,
     cursor_pos = 0, num_chars = 0\<rparr>"

lemma ed_inv_editing: "ed_inv at_tail editing"
  by (simp add: ed_inv_def hist_ok_def line_inv_def at_tail_def editing_def idle_def)

lemma edit_loop_keeps_line_invariant_witness:
  "ed_inv at_tail editing \<and> num_chars at_tail < buf_size at_tail - 1 \<and>
   loop_body 97 at_tail editing =
     Ok (Continue (at_tail\<lparr>cursor_pos := 1, num_chars := 1\<rparr>))
        (editing\<lparr>heap := [''ab'' @ [NUL, NUL], [CHR ''a'', NUL, CHR ''y'', CHR ''z'']],
                  out := ''a''\<rparr>) \<and>
   ed_inv (at_tail\<lparr>cursor_pos := 1, num_chars := 1\<rparr>)
     (editing\<lparr>heap := [''ab'' @ [NUL, NUL], [CHR ''a'', NUL, CHR ''y'', CHR ''z'']],
               out := ''a''\<rparr>)"
proof -
  have g: "num_chars at_tail < buf_size at_tail - 1"
    by (simp add: at_tail_def)
  have r: "loop_body 97 at_tail editing =
     Ok (Continue (at_tail\<lparr>cursor_pos := 1, num_chars := 1\<rparr>))
        (editing\<lparr>heap := [''ab'' @ [NUL, NUL], [CHR ''a'', NUL, CHR ''y'', CHR ''z'']],
                  out := ''a''\<rparr>)"
    by (simp add: loop_body_def isprint_def on_printable_def sys_write_def next_ok_def poke_def
        store_def bind_def low_byte_def at_tail_def editing_def idle_def char_of_eq_iff)
  from edit_loop_keeps_line_invariant [OF ed_inv_editing g, of 97] r
  have "ed_inv (at_tail\<lparr>cursor_pos := 1, num_chars := 1\<rparr>)
     (editing\<lparr>heap := [''ab'' @ [NUL, NUL], [CHR ''a'', NUL, CHR ''y'', CHR ''z'']],
               out := ''a''\<rparr>)"
    by blast
  with ed_inv_editing g r show ?thesis by blast
qed

lemma arrow_keys_recall_history_witness:
  "ed_inv at_tail editing \<and> False \<notin> set (writes editing) \<and>
   history_index editing = length (history editing) - 1 \<and>
   loop_body KEY_ARROW_DOWN at_tail editing = Ok (Continue at_tail) editing \<and>
   history_index editing \<noteq> 0 \<and>
   (\<exists>w'. loop_body KEY_ARROW_UP at_tail editing =
           Ok (Continue (at_tail\<lparr>current_buf := 0, cursor_pos := 2, num_chars := 2\<rparr>)) w' \<and>
         history_index w' = 0 \<and> heap w' = heap editing \<and> history w' = history editing)"
proof -
  have w: "False \<notin> set (writes editing)"
    by (simp add: editing_def idle_def)
  have t: "history_index editing = length (history editing) - 1" "history_index editing \<noteq> 0"
    by (simp_all add: editing_def idle_def)
  have l: "strlen (heap editing ! (history editing ! (history_index editing - 1))) = Some 2"
    "history editing ! (history_index editing - 1) = 0" "history_index editing - 1 = 0"
    by (simp_all add: editing_def idle_def NUL_def)
  from arrow_keys_recall_history [OF ed_inv_editing w] t l
  have "loop_body KEY_ARROW_DOWN at_tail editing = Ok (Continue at_tail) editing"
    and "\<exists>w'. loop_body KEY_ARROW_UP at_tail editing =
           Ok (Continue (at_tail\<lparr>current_buf := 0, cursor_pos := 2, num_chars := 2\<rparr>)) w' \<and>
         history_index w' = 0 \<and> heap w' = heap editing \<and> history w' = history editing"
    by auto
  with ed_inv_editing w t show ?thesis by blast
qed

subsection \<open>Insertion followed by Backspace\<close>

text \<open>The bytes of a line after an insertion and after a Backspace, index by index.\<close>

lemma nth_shifted:
  assumes "d + n \<le> length b" and "s + n \<le> length b" and "i < length b"
  shows "shifted b d s n ! i =
           (if i < d then b ! i else if i < d + n then b ! (s + (i - d)) else b ! i)"
proof -
  have l1: "min (length b) d = d" and l2: "min (length b - s) n = n"
    using assms by simp_all
  consider (lo) "i < d" | (mid) "d \<le> i" "i < d + n" | (hi) "d + n \<le> i"
    by linarith
  then show ?thesis
  proof cases
    case lo
    then show ?thesis using assms by (simp add: shifted_def nth_append l1)
  next
    case mid
    then have "shifted b d s n ! i = take n (drop s b) ! (i - d)"
      by (simp add: shifted_def nth_append l1 l2)
    also have "\<dots> = b ! (s + (i - d))"
      using mid assms by simp
    finally show ?thesis using mid by simp
  next
    case hi
    then have "shifted b d s n ! i = drop (d + n) b ! (i - d - n)"
      by (simp add: shifted_def nth_append l1 l2)
    also have "\<dots> = b ! (d + n + (i - d - n))"
      using hi assms by simp
    also have "d + n + (i - d - n) = i"
      using hi by simp
    finally show ?thesis using hi by simp
  qed
qed

lemma nth_line_after_insert_any:
  assumes "cp \<le> n" and "n + 2 \<le> length b" and "i < length b"
  shows "line_after_insert b cp n c ! i =
           (if i = n + 1 then NUL else if i = cp then c
            else if cp < i \<and> i \<le> n then b ! (i - 1) else b ! i)"
  using assms
  by (auto simp: line_after_insert_def nth_list_update length_shifted nth_shifted)

lemma nth_line_after_backspace_any:
  assumes "0 < cp" and "cp \<le> n" and "n < length b" and "i < length b"
  shows "line_after_backspace b cp n ! i =
           (if i = n - 1 then NUL else if cp - 1 \<le> i \<and> i < n then b ! (i + 1) else b ! i)"
  using assms
  by (auto simp: line_after_backspace_def nth_list_update length_shifted nth_shifted)

lemma backspace_after_insert:
  assumes cn: "cp \<le> n" and room: "n + 2 \<le> length b" and nul: "b ! n = NUL"
  shows "line_after_backspace (line_after_insert b cp n c) (cp + 1) (n + 1) = b[n + 1 := NUL]"
proof (rule nth_equalityI)
  have li: "length (line_after_insert b cp n c) = length b"
    using length_line_after_insert [OF cn room] .
  show "length (line_after_backspace (line_after_insert b cp n c) (cp + 1) (n + 1)) =
        length (b[n + 1 := NUL])"
    using length_line_after_backspace [of "cp + 1" "n + 1" "line_after_insert b cp n c"] cn room li
    by simp
  fix i
  assume "i < length (line_after_backspace (line_after_insert b cp n c) (cp + 1) (n + 1))"
  then have i: "i < length b"
    using length_line_after_backspace [of "cp + 1" "n + 1" "line_after_insert b cp n c"] cn room li
    by simp
  have "line_after_backspace (line_after_insert b cp n c) (cp + 1) (n + 1) ! i =
        (if i = n then NUL
         else if cp \<le> i \<and> i < n + 1 then line_after_insert b cp n c ! (i + 1)
         else line_after_insert b cp n c ! i)"
    using nth_line_after_backspace_any [of "cp + 1" "n + 1" "line_after_insert b cp n c" i]
      cn room li i by simp
  also have "\<dots> = b[n + 1 := NUL] ! i"
    using nth_line_after_insert_any [OF cn room, of i c]
      nth_line_after_insert_any [OF cn room, of "i + 1" c] cn room nul i
    by (auto simp: nth_list_update)
  finally show "line_after_backspace (line_after_insert b cp n c) (cp + 1) (n + 1) ! i =
      b[n + 1 := NUL] ! i" .
qed

text \<open>the content after an insertion: spec 8, first property\<close>
lemma take_line_after_insert:
  assumes cn: "cp \<le> n" and room: "n + 2 \<le> length b"
  shows "take (n + 1) (line_after_insert b cp n c) = take cp b @ c # take (n - cp) (drop cp b)"
proof (rule nth_equalityI)
  show "length (take (n + 1) (line_after_insert b cp n c)) =
        length (take cp b @ c # take (n - cp) (drop cp b))"
    using length_line_after_insert [OF cn room, of c] cn room by simp
  fix i
  assume "i < length (take (n + 1) (line_after_insert b cp n c))"
  then have i: "i < n + 1"
    by simp
  then have ib: "i < length b" using room by simp
  have lhs: "take (n + 1) (line_after_insert b cp n c) ! i =
      (if i = cp then c else if cp < i then b ! (i - 1) else b ! i)"
    using nth_line_after_insert_any [OF cn room ib, of c] i by simp
  have l1: "min (length b) cp = cp"
    using cn room by simp
  consider (lo) "i < cp" | (eq) "i = cp" | (hi) "cp < i"
    by linarith
  then show "take (n + 1) (line_after_insert b cp n c) ! i =
        (take cp b @ c # take (n - cp) (drop cp b)) ! i"
  proof cases
    case lo
    then show ?thesis using lhs ib by (simp add: nth_append l1)
  next
    case eq
    then show ?thesis using lhs by (simp add: nth_append l1)
  next
    case hi
    then obtain k where k: "i = cp + Suc k"
      by (metis less_iff_Suc_add add_Suc_right)
    then have "(take cp b @ c # take (n - cp) (drop cp b)) ! i = take (n - cp) (drop cp b) ! k"
      by (simp add: nth_append l1)
    also have "\<dots> = b ! (cp + k)"
      using k i room by simp
    finally show ?thesis using lhs hi k by simp
  qed
qed


lemma loop_body_printable: "isprint key \<Longrightarrow> loop_body key f w = on_printable key f w"
  by (simp add: loop_body_def)

lemma loop_body_backspace: "loop_body KEY_BACKSPACE f w = on_backspace f w"
  by (simp add: loop_body_def isprint_def key_defs)

text \<open>
  In a session that reads with one buffer size (\<open>ed_inv\<close>), with the loop condition true
  and no write to the terminal failing: a printable key inserts its byte at the cursor
  (the line becomes the bytes before the cursor, the byte, the bytes from the cursor on),
  and the Backspace handler then gives back the original locals (length and cursor offset)
  and the original line: the block is the original one except that the byte behind the
  terminator is now a terminator too, so its first \<open>num_chars + 1\<close> bytes, the content
  with its terminator, are the original ones. On a recalled line of a smaller block the
  insertion fails: see the last subsection, on lines of another size.
\<close>

lemma insert_then_backspace:
  assumes inv: "ed_inv f w" and pr: "isprint key"
    and guard: "num_chars f < buf_size f - 1" and wr: "False \<notin> set (writes w)"
  shows "\<exists>f1 w1 w2.
           loop_body key f w = Ok (Continue f1) w1 \<and>
           cursor_pos f1 = cursor_pos f + 1 \<and> num_chars f1 = num_chars f + 1 \<and>
           take (num_chars f1) (heap w1 ! current_buf f) =
             take (cursor_pos f) (heap w ! current_buf f) @ low_byte key #
             take (num_chars f - cursor_pos f) (drop (cursor_pos f) (heap w ! current_buf f)) \<and>
           loop_body KEY_BACKSPACE f1 w1 = Ok (Continue f) w2 \<and>
           heap w2 = (heap w)[current_buf f := (heap w ! current_buf f)[num_chars f + 1 := NUL]] \<and>
           take (num_chars f + 1) (heap w2 ! current_buf f) =
             take (num_chars f + 1) (heap w ! current_buf f) \<and>
           history w2 = history w \<and> history_index w2 = history_index w"
proof -
  let ?b = "heap w ! current_buf f"
  let ?cp = "cursor_pos f" and ?n = "num_chars f"
  let ?b1 = "line_after_insert ?b ?cp ?n (low_byte key)"
  let ?f1 = "f\<lparr>cursor_pos := ?cp + 1, num_chars := ?n + 1\<rparr>"
  have cb: "current_buf f < length (heap w)" and cn: "?cp \<le> ?n" and nul: "?b ! ?n = NUL"
    using line_inv_facts [OF ed_inv_line [OF inv]] by blast+
  have rm: "?n + 2 \<le> length ?b"
    using ed_inv_room [OF inv guard] .
  have l1: "length ?b1 = length ?b"
    using length_line_after_insert [OF cn rm] .
  from post_no_writes_fail [OF on_printable_spec [OF cb cn rm, of key] wr]
  obtain w1 where r1: "on_printable key f w = Ok (Continue ?f1) w1"
    and h1: "heap w1 = (heap w)[current_buf f := ?b1]" and q1: "quiet w w1"
    by blast
  have wr1: "False \<notin> set (writes w1)"
    using q1 wr by (simp add: quiet_def)
  have b1: "heap w1 ! current_buf f = ?b1"
    using h1 cb by simp
  have cb1: "current_buf ?f1 < length (heap w1)"
    using h1 cb by simp
  have cn1: "cursor_pos ?f1 \<le> num_chars ?f1"
    using cn by simp
  have nl1: "num_chars ?f1 < length (heap w1 ! current_buf ?f1)"
    using b1 l1 rm by simp
  from post_no_writes_fail [OF on_backspace_spec [OF cb1 cn1 nl1] wr1]
  obtain c2 w2 where r2: "on_backspace ?f1 w1 = Ok c2 w2"
    and c2: "c2 = Continue (?f1\<lparr>cursor_pos := cursor_pos ?f1 - 1, num_chars := num_chars ?f1 - 1\<rparr>)"
    and h2: "heap w2 = (heap w1)[current_buf ?f1 :=
        line_after_backspace (heap w1 ! current_buf ?f1) (cursor_pos ?f1) (num_chars ?f1)]"
    and q2: "quiet w1 w2"
    by auto
  have undo: "?f1\<lparr>cursor_pos := cursor_pos ?f1 - 1, num_chars := num_chars ?f1 - 1\<rparr> = f"
    by simp
  have h2': "heap w2 = (heap w)[current_buf f := (?b)[?n + 1 := NUL]]"
    using h2 h1 b1 backspace_after_insert [OF cn rm nul, of "low_byte key"] by simp
  have t2: "take (?n + 1) (heap w2 ! current_buf f) = take (?n + 1) ?b"
    using h2' cb by simp
  have k: "history w2 = history w" "history_index w2 = history_index w"
    using q1 q2 by (simp_all add: quiet_def kept_def)
  have t1: "take (num_chars ?f1) (heap w1 ! current_buf f) =
      take ?cp ?b @ low_byte key # take (?n - ?cp) (drop ?cp ?b)"
    using take_line_after_insert [OF cn rm, of "low_byte key"] b1 by simp
  have "loop_body key f w = Ok (Continue ?f1) w1"
    using r1 pr by (simp add: loop_body_printable)
  moreover have "loop_body KEY_BACKSPACE ?f1 w1 = Ok (Continue f) w2"
    using r2 c2 undo by (simp add: loop_body_backspace)
  ultimately show ?thesis
    using t1 h2' t2 k by (intro exI [of _ ?f1] exI [of _ w1] exI [of _ w2]) simp
qed

text \<open>
  The same session with \<^verbatim>\<open>cd\<close> typed on the new line: one byte of room is left before
  the loop condition \<open>num_chars < buf_size - 1\<close> fails.
\<close>

definition nearly_full :: "bool world" where
  "nearly_full = editing\<lparr>heap := [''ab'' @ [NUL, NUL], ''cd'' @ [NUL, CHR ''z'']]\<rparr>"

definition at_two :: frame where
  "at_two = at_tail\<lparr>cursor_pos := 2, num_chars := 2\<rparr>"

lemmas loop_defs = edit_loop.simps loop_round_def loop_body_def read_key_def
  on_printable_def on_enter_def on_ctrl_c_def on_ctrl_d_def on_backspace_def on_left_def
  on_right_def shift_tail_def io_defs isprint_def int_of_char_def low_byte_def
  store_def load_def bind_def next_ok_def key_defs char_of_eq_iff

lemma insert_then_backspace_witness:
  "ed_inv at_tail editing \<and> isprint 97 \<and> num_chars at_tail < buf_size at_tail - 1 \<and>
   False \<notin> set (writes editing) \<and>
   (\<exists>f1 w1 w2.
      loop_body 97 at_tail editing = Ok (Continue f1) w1 \<and>
      loop_body KEY_BACKSPACE f1 w1 = Ok (Continue at_tail) w2 \<and>
      take (num_chars at_tail + 1) (heap w2 ! current_buf at_tail) =
        take (num_chars at_tail + 1) (heap editing ! current_buf at_tail))"
proof -
  have p: "isprint 97" by (simp add: isprint_def)
  have r: "num_chars at_tail < buf_size at_tail - 1" by (simp add: at_tail_def)
  have w: "False \<notin> set (writes editing)" by (simp add: editing_def idle_def)
  from insert_then_backspace [OF ed_inv_editing p r w]
  have "\<exists>f1 w1 w2.
      loop_body 97 at_tail editing = Ok (Continue f1) w1 \<and>
      loop_body KEY_BACKSPACE f1 w1 = Ok (Continue at_tail) w2 \<and>
      take (num_chars at_tail + 1) (heap w2 ! current_buf at_tail) =
        take (num_chars at_tail + 1) (heap editing ! current_buf at_tail)"
    by blast
  with ed_inv_editing p r w show ?thesis by blast
qed

subsection \<open>Leaving the loop\<close>

text \<open>
  What the code at \<^verbatim>\<open>end_of_loop\<close> leaves behind when the line fits: \<open>mirrored\<close> is the
  heap after the copy onto the last entry, which is made when the history cursor is not at
  the tail; \<open>submitted\<close> is the caller's buffer after \<^verbatim>\<open>memcpy\<close>, the line with its
  terminator followed by the bytes of the buffer that were not overwritten.
\<close>

definition mirrored :: "frame \<Rightarrow> 'tm world \<Rightarrow> char list list" where
  "mirrored f w =
     (if history_index w < history_len f - 1
      then (heap w)[history w ! (history_len f - 1) :=
             take (num_chars f + 1) (heap w ! current_buf f) @
             drop (num_chars f + 1) (heap w ! (history w ! (history_len f - 1)))]
      else heap w)"

definition submitted :: "char list \<Rightarrow> frame \<Rightarrow> 'tm world \<Rightarrow> char list" where
  "submitted buf f w =
     take (num_chars f + 1) (heap w ! current_buf f) @ drop (num_chars f + 1) buf"

lemma ed_inv_blocks:
  assumes inv: "ed_inv f w"
  shows "current_buf f < length (heap w)" and "length (heap w ! current_buf f) = buf_size f"
    and "num_chars f < buf_size f" and "heap w ! current_buf f ! num_chars f = NUL"
    and "history_len f = length (history w)" and "0 < length (history w)"
    and "history w ! (length (history w) - 1) < length (heap w)"
    and "length (heap w ! (history w ! (length (history w) - 1))) = buf_size f"
proof -
  have l: "line_inv f w" using inv by (rule ed_inv_line)
  show cb: "current_buf f < length (heap w)" using line_inv_facts [OF l] by blast
  have hl: "history_index w < length (history w)" using inv by (simp add: ed_inv_def)
  then show pos: "0 < length (history w)" by (cases "history w") simp_all
  have "current_buf f \<in> set (history w)"
    using inv by (simp add: ed_inv_def)
  then show lb: "length (heap w ! current_buf f) = buf_size f"
    using inv by (simp add: ed_inv_def hist_ok_def)
  show "num_chars f < buf_size f"
    using line_inv_facts(2) [OF l] lb by simp
  show "heap w ! current_buf f ! num_chars f = NUL" using line_inv_facts [OF l] by blast
  show "history_len f = length (history w)" using inv by (simp add: ed_inv_def)
  have "history w ! (length (history w) - 1) \<in> set (history w)"
    using pos by simp
  then show "history w ! (length (history w) - 1) < length (heap w)"
    and "length (heap w ! (history w ! (length (history w) - 1))) = buf_size f"
    using inv by (simp_all add: ed_inv_def hist_ok_def)
qed

lemma end_of_loop_eq:
  assumes inv: "ed_inv f w" and bl: "buf_size f \<le> length buf" and tc: "next_ok (tcsets w)"
  shows "end_of_loop buf f w =
           Ok (RL_SUCCESS, submitted buf f w)
              (w\<lparr>heap := mirrored f w, tty := original_state w, tcsets := tl (tcsets w)\<rparr>)"
proof -
  note b = ed_inv_blocks [OF inv]
  have same: "(heap w)[current_buf f := (heap w ! current_buf f)[num_chars f := NUL]] = heap w"
    using b(4) by (metis list_update_id)
  have pk: "poke (heap w) (current_buf f) (num_chars f) NUL = Some (heap w)"
    using b(1,2,3) same by (simp add: poke_def)
  show ?thesis
    using b bl tc pk
    by (simp add: end_of_loop_def store_def load_def bind_def block_def memcpy_def vector_get_def
        disable_raw_mode_def disable_raw_mode_with_def sys_tcsetattr_def mirrored_def
        submitted_def Let_def)
qed


lemma ed_inv_same_lines:
  assumes "ed_inv f w" and "heap w' = heap w" and "history w' = history w"
    and "history_index w' = history_index w"
  shows "ed_inv f w'"
  using assms unfolding ed_inv_def line_inv_def hist_ok_def by auto

lemma read_key_byte:
  assumes "raw_mode_enabled w" and "reads w = Byte c # rs" and "int_of_char c \<noteq> KEY_ESC"
  shows "read_key w = Ok (int_of_char c) (w\<lparr>reads := rs\<rparr>)"
  using assms by (simp add: read_key_def)

lemma edit_loop_full: "\<not> num_chars f < buf_size f - 1 \<Longrightarrow> edit_loop f w = Ok (EndOfLoop f) w"
  by (simp add: edit_loop.simps)

lemma edit_loop_round:
  "num_chars f < buf_size f - 1 \<Longrightarrow>
     edit_loop f w =
       (case loop_round f w of
          Ok (Continue f') w' \<Rightarrow> edit_loop f' w'
        | Ok (EndOfLoop f') w' \<Rightarrow> Ok (EndOfLoop f') w'
        | Ok (Return r) w' \<Rightarrow> Ok (Return r) w'
        | Halt h w' \<Rightarrow> Halt h w')"
  by (subst edit_loop.simps) simp

lemma loop_body_ctrl_d: "loop_body (CTRL_KEY (CHR ''d'')) f w = on_ctrl_d f w"
  by (simp add: loop_body_def isprint_def key_defs)

lemma loop_body_enter: "loop_body KEY_ENTER f w = on_enter f w"
  by (simp add: loop_body_def isprint_def key_defs)

lemma int_of_char_keys:
  "int_of_char (CHR 0x04) = CTRL_KEY (CHR ''d'')" "int_of_char (CHR 0x0D) = KEY_ENTER"
  "int_of_char (CHR 0x04) \<noteq> KEY_ESC" "int_of_char (CHR 0x0D) \<noteq> KEY_ESC"
  by (simp_all add: int_of_char_def key_defs)

lemma disable_raw_mode_ok:
  "next_ok (tcsets w) \<Longrightarrow>
     disable_raw_mode w = Ok () (w\<lparr>tty := original_state w, tcsets := tl (tcsets w)\<rparr>)"
  by (simp add: disable_raw_mode_def disable_raw_mode_with_def sys_tcsetattr_def)

text \<open>
  Claim C3, as amended. In a state of the edit loop (invariant and loop condition true, raw
  mode on, the coming \<^verbatim>\<open>tcsetattr\<close> succeeding): when the next byte is Ctrl+D and the
  length is 0, the call restores the saved terminal attributes and returns \<^verbatim>\<open>RL_EOF\<close>
  at once, with the caller's buffer, the history vector and every line of the history as
  they were. When the length is not 0, Ctrl+D submits the line and the call returns
  \<^verbatim>\<open>RL_SUCCESS\<close>; Enter does the same things and the same state results, except that
  Enter first writes CR LF to the terminal and Ctrl+D writes nothing.
\<close>

theorem ctrl_d_ends_the_read:
  assumes inv: "ed_inv f w" and guard: "num_chars f < buf_size f - 1"
    and raw: "raw_mode_enabled w" and bl: "buf_size f \<le> length buf"
    and tc: "next_ok (tcsets w)"
  shows "(num_chars f = 0 \<and> reads w = Byte (CHR 0x04) # rs \<longrightarrow>
            edit_and_return buf f w =
              Ok (RL_EOF, buf)
                 (w\<lparr>reads := rs, tty := original_state w, tcsets := tl (tcsets w)\<rparr>)) \<and>
         (num_chars f \<noteq> 0 \<and> reads w = Byte (CHR 0x04) # rs \<longrightarrow>
            edit_and_return buf f w =
              Ok (RL_SUCCESS, submitted buf f w)
                 (w\<lparr>reads := rs, heap := mirrored f w, tty := original_state w,
                     tcsets := tl (tcsets w)\<rparr>)) \<and>
         (next_ok (writes w) \<and> reads w = Byte (CHR 0x0D) # rs \<longrightarrow>
            edit_and_return buf f w =
              Ok (RL_SUCCESS, submitted buf f w)
                 (w\<lparr>reads := rs, heap := mirrored f w, tty := original_state w,
                     tcsets := tl (tcsets w),
                     out := out w @ [CHR 0x0D, CHR 0x0A], writes := tl (writes w)\<rparr>))"
proof (intro conjI impI)
  assume a: "num_chars f = 0 \<and> reads w = Byte (CHR 0x04) # rs"
  then have rd: "reads w = Byte (CHR 0x04) # rs" by simp
  have rk: "read_key w = Ok (CTRL_KEY (CHR ''d'')) (w\<lparr>reads := rs\<rparr>)"
    using read_key_byte [OF raw rd int_of_char_keys(3)] by (simp add: int_of_char_keys)
  show "edit_and_return buf f w =
      Ok (RL_EOF, buf) (w\<lparr>reads := rs, tty := original_state w, tcsets := tl (tcsets w)\<rparr>)"
    using a tc
    by (simp add: edit_and_return_def edit_loop_round [OF guard] loop_round_def rk bind_def
        loop_body_ctrl_d on_ctrl_d_def disable_raw_mode_ok after_loop_def)
next
  assume a: "num_chars f \<noteq> 0 \<and> reads w = Byte (CHR 0x04) # rs"
  then have rd: "reads w = Byte (CHR 0x04) # rs" by simp
  have rk: "read_key w = Ok (CTRL_KEY (CHR ''d'')) (w\<lparr>reads := rs\<rparr>)"
    using read_key_byte [OF raw rd int_of_char_keys(3)] by (simp add: int_of_char_keys)
  have inv': "ed_inv f (w\<lparr>reads := rs\<rparr>)"
    by (rule ed_inv_same_lines [OF inv]) simp_all
  have "edit_and_return buf f w = end_of_loop buf f (w\<lparr>reads := rs\<rparr>)"
    using a
    by (simp add: edit_and_return_def edit_loop_round [OF guard] loop_round_def rk bind_def
        loop_body_ctrl_d on_ctrl_d_def after_loop_def)
  also have "\<dots> = Ok (RL_SUCCESS, submitted buf f w)
                 (w\<lparr>reads := rs, heap := mirrored f w, tty := original_state w,
                     tcsets := tl (tcsets w)\<rparr>)"
    using end_of_loop_eq [OF inv' bl] tc by (simp add: submitted_def mirrored_def)
  finally show "edit_and_return buf f w =
              Ok (RL_SUCCESS, submitted buf f w)
                 (w\<lparr>reads := rs, heap := mirrored f w, tty := original_state w,
                     tcsets := tl (tcsets w)\<rparr>)" .
next
  assume a: "next_ok (writes w) \<and> reads w = Byte (CHR 0x0D) # rs"
  then have rd: "reads w = Byte (CHR 0x0D) # rs" by simp
  have rk: "read_key w = Ok KEY_ENTER (w\<lparr>reads := rs\<rparr>)"
    using read_key_byte [OF raw rd int_of_char_keys(4)] by (simp add: int_of_char_keys)
  let ?w1 = "w\<lparr>reads := rs, out := out w @ [CHR 0x0D, CHR 0x0A], writes := tl (writes w)\<rparr>"
  have inv': "ed_inv f ?w1"
    by (rule ed_inv_same_lines [OF inv]) simp_all
  have "edit_and_return buf f w = end_of_loop buf f ?w1"
    using a
    by (simp add: edit_and_return_def edit_loop_round [OF guard] loop_round_def rk bind_def
        loop_body_enter on_enter_def sys_write_def after_loop_def)
  also have "\<dots> = Ok (RL_SUCCESS, submitted buf f w)
                 (w\<lparr>reads := rs, heap := mirrored f w, tty := original_state w,
                     tcsets := tl (tcsets w),
                     out := out w @ [CHR 0x0D, CHR 0x0A], writes := tl (writes w)\<rparr>)"
    using end_of_loop_eq [OF inv' bl] tc by (simp add: submitted_def mirrored_def)
  finally show "edit_and_return buf f w =
              Ok (RL_SUCCESS, submitted buf f w)
                 (w\<lparr>reads := rs, heap := mirrored f w, tty := original_state w,
                     tcsets := tl (tcsets w),
                     out := out w @ [CHR 0x0D, CHR 0x0A], writes := tl (writes w)\<rparr>)" .
qed











text \<open>
  More states of the session of 4-byte buffers: the first line \<^verbatim>\<open>ab\<close> recalled with
  Arrow-Up, and the new line filled up with \<^verbatim>\<open>cde\<close>.
\<close>

definition recalled :: "bool world" where
  "recalled = editing\<lparr>history_index := 0\<rparr>"

definition at_first :: frame where
  "at_first = at_tail\<lparr>current_buf := 0, cursor_pos := 2, num_chars := 2\<rparr>"

definition full :: "bool world" where
  "full = editing\<lparr>heap := [''ab'' @ [NUL, NUL], ''cde'' @ [NUL]]\<rparr>"

definition at_three :: frame where
  "at_three = at_tail\<lparr>cursor_pos := 3, num_chars := 3\<rparr>"

lemmas demo_defs = idle_def editing_def at_tail_def nearly_full_def at_two_def recalled_def
  at_first_def full_def at_three_def

lemmas inv_defs = ed_inv_def hist_ok_def line_inv_def

lemmas end_defs = end_of_loop_def after_loop_def edit_and_return_def memcpy_def
  disable_raw_mode_def disable_raw_mode_with_def sys_tcsetattr_def


theorem ctrl_d_ends_the_read_witness:
  "ed_inv at_tail (editing\<lparr>reads := [Byte (CHR 0x04)]\<rparr>) \<and>
   num_chars at_tail < buf_size at_tail - 1 \<and>
   raw_mode_enabled (editing\<lparr>reads := [Byte (CHR 0x04)]\<rparr>) \<and>
   buf_size at_tail \<le> length ''zzzz'' \<and>
   next_ok (tcsets (editing\<lparr>reads := [Byte (CHR 0x04)]\<rparr>)) \<and>
   num_chars at_tail = 0 \<and>
   edit_and_return ''zzzz'' at_tail (editing\<lparr>reads := [Byte (CHR 0x04)]\<rparr>) =
     Ok (RL_EOF, ''zzzz'') (editing\<lparr>tty := False\<rparr>)"
proof -
  let ?w = "editing\<lparr>reads := [Byte (CHR 0x04)]\<rparr>"
  have i: "ed_inv at_tail ?w"
    by (rule ed_inv_same_lines [OF ed_inv_editing]) simp_all
  have g: "num_chars at_tail < buf_size at_tail - 1" and z: "num_chars at_tail = 0"
    and b: "buf_size at_tail \<le> length ''zzzz''"
    by (simp_all add: demo_defs)
  have r: "raw_mode_enabled ?w" and t: "next_ok (tcsets ?w)" and rd: "reads ?w = Byte (CHR 0x04) # []"
    by (simp_all add: next_ok_def demo_defs)
  have e: "?w\<lparr>reads := [], tty := original_state ?w, tcsets := tl (tcsets ?w)\<rparr> =
      editing\<lparr>tty := False\<rparr>"
    by (simp add: demo_defs)
  from ctrl_d_ends_the_read [OF i g r b t, of "[]"] z rd e
  have "edit_and_return ''zzzz'' at_tail ?w = Ok (RL_EOF, ''zzzz'') (editing\<lparr>tty := False\<rparr>)"
    by simp
  with i g r b t z show ?thesis by blast
qed



text \<open>
  A session whose first line is empty: \<^verbatim>\<open>x\<close> was typed on the new line and the first
  line was then recalled.
\<close>

definition stale :: "bool world" where
  "stale = editing\<lparr>history_index := 0,
     heap := [[NUL, NUL, NUL, NUL], ''x'' @ [NUL, CHR ''y'', CHR ''z'']]\<rparr>"

definition at_empty :: frame where
  "at_empty = at_tail\<lparr>current_buf := 0\<rparr>"

text \<open>
  On the line \<^verbatim>\<open>cd\<close> Ctrl+D and Enter leave the loop with different states: only Enter
  has written CR LF. And Ctrl+D on the recalled empty line returns \<^verbatim>\<open>RL_EOF\<close> while the
  entry added by this call holds \<^verbatim>\<open>x\<close>.
\<close>

theorem ctrl_d_ends_the_read_counterexample:
  "ed_inv at_two nearly_full \<and>
   loop_body (CTRL_KEY (CHR ''d'')) at_two nearly_full = Ok (EndOfLoop at_two) nearly_full \<and>
   loop_body KEY_ENTER at_two nearly_full =
     Ok (EndOfLoop at_two) (nearly_full\<lparr>out := [CHR 0x0D, CHR 0x0A]\<rparr>) \<and>
   out nearly_full = [] \<and>
   ed_inv at_empty stale \<and> num_chars at_empty = 0 \<and>
   loop_body (CTRL_KEY (CHR ''d'')) at_empty stale = Ok (Return RL_EOF) (stale\<lparr>tty := False\<rparr>) \<and>
   take 2 (heap (stale\<lparr>tty := False\<rparr>) ! last (history (stale\<lparr>tty := False\<rparr>))) = ''x'' @ [NUL]"
  by (simp add: inv_defs demo_defs stale_def at_empty_def loop_body_ctrl_d loop_body_enter
      on_ctrl_d_def on_enter_def sys_write_def next_ok_def disable_raw_mode_ok bind_def)


subsection \<open>The history over a whole call\<close>

lemma post_case_res:
  "post Q E (case r of Ok a s \<Rightarrow> f a s | Halt h s \<Rightarrow> g h s) =
     post (\<lambda>a s. post Q E (f a s)) (\<lambda>h s. post Q E (g h s)) r"
  by (cases r) simp_all

text \<open>
  An invariant rule for the loop: what holds before the loop and is kept by every round
  that continues holds when the loop is left.
\<close>

lemma edit_loop_rule:
  assumes inv: "I f w"
    and round: "\<And>f w. I f w \<Longrightarrow> num_chars f < buf_size f - 1 \<Longrightarrow>
        post (\<lambda>c w'. case c of Continue f' \<Rightarrow> I f' w' | EndOfLoop f' \<Rightarrow> Q (EndOfLoop f') w'
                       | Return r \<Rightarrow> Q (Return r) w') E (loop_round f w)"
    and full: "\<And>f w. I f w \<Longrightarrow> \<not> num_chars f < buf_size f - 1 \<Longrightarrow> Q (EndOfLoop f) w"
  shows "post Q E (edit_loop f w)"
  using inv
proof (induction f w rule: edit_loop.induct)
  case (1 f w)
  show ?case
  proof (cases "num_chars f < buf_size f - 1")
    case False
    then show ?thesis using full [OF "1.prems" False] by (simp add: edit_loop_full)
  next
    case True
    note r = round [OF "1.prems" True]
    show ?thesis
    proof (cases "loop_round f w")
      case (Halt h w')
      then show ?thesis using r by (simp add: edit_loop_round [OF True])
    next
      case (Ok c w')
      show ?thesis
      proof (cases c)
        case (Continue f')
        then have "I f' w'" using r Ok by simp
        from "1.IH" [OF True Ok Continue this] show ?thesis
          using Ok Continue by (simp add: edit_loop_round [OF True])
      next
        case (EndOfLoop f')
        then show ?thesis using r Ok by (simp add: edit_loop_round [OF True])
      next
        case (Return x)
        then show ?thesis using r Ok by (simp add: edit_loop_round [OF True])
      qed
    qed
  qed
qed


lemma read_key_Ok: "read_key w = Ok key w' \<Longrightarrow> \<exists>rs. w' = w\<lparr>reads := rs\<rparr>"
  by (auto simp: read_key_def split: if_splits option.splits prod.splits)

lemma loop_round_history: "loop_round f w = Ok c w' \<Longrightarrow> history w' = history w"
  by (auto simp: loop_round_def bind_Ok_iff kept_def dest!: read_key_Ok loop_body_kept)

lemma post_True [simp]: "post (\<lambda>a s. True) (\<lambda>h s. True) r"
  by (cases r) simp_all

lemma edit_loop_history:
  fixes w :: "'tm world"
  shows "edit_loop f w = Ok c w' \<Longrightarrow> history w' = history w"
proof -
  have "post (\<lambda>c w'. history w' = history w) (\<lambda>h w'. True) (edit_loop f w)"
  proof (rule edit_loop_rule [where I = "\<lambda>f (w' :: 'tm world). history w' = history w"])
    show "history w = history w" by simp
  next
    fix f' and w' :: "'tm world"
    assume h: "history w' = history w"
    show "post (\<lambda>c w''. case c of Continue f' \<Rightarrow> history w'' = history w
                | EndOfLoop f' \<Rightarrow> history w'' = history w
                | Return r \<Rightarrow> history w'' = history w) (\<lambda>h w'. True) (loop_round f' w')"
    proof (cases "loop_round f' w'")
      case (Ok c w'')
      then show ?thesis using loop_round_history [OF Ok] h by (cases c) simp_all
    qed simp
  qed simp
  then show "edit_loop f w = Ok c w' \<Longrightarrow> history w' = history w" by simp
qed

lemma end_of_loop_history: "end_of_loop buf f w = Ok x w' \<Longrightarrow> history w' = history w"
  by (auto simp: end_of_loop_def bind_Ok_iff Let_def store_def kept_def
      split: if_splits option.splits dest!: load_Ok disable_raw_mode_kept)

lemma after_loop_history: "after_loop buf c w = Ok x w' \<Longrightarrow> history w' = history w"
  by (cases c) (auto simp: after_loop_def dest!: end_of_loop_history)

lemma edit_and_return_history: "edit_and_return buf f w = Ok x w' \<Longrightarrow> history w' = history w"
  by (auto simp: edit_and_return_def bind_Ok_iff dest!: edit_loop_history after_loop_history)

lemma print_prompt_history: "print_prompt p w = Ok u w' \<Longrightarrow> history w' = history w"
  by (auto simp: print_prompt_def sys_write_def split: option.splits if_splits)

lemma add_to_history_appends:
  "add_to_history buf n w = Ok added w' \<Longrightarrow>
     (added \<longrightarrow> (\<exists>p. history w' = history w @ [p])) \<and> (\<not> added \<longrightarrow> history w' = history w)"
  by (auto simp: add_to_history_def sys_malloc_def bind_Ok_iff vector_push_def
      split: if_splits dest!: load_Ok)

lemma enable_raw_mode_history: "enable_raw_mode lc w = Ok u w' \<Longrightarrow> history w' = history w"
  by (auto simp: enable_raw_mode_def sys_tcgetattr_def sys_tcsetattr_def Let_def
      split: if_splits)

lemma get_cursor_position_history:
  "get_cursor_position lc w = Ok pos w' \<Longrightarrow> history w' = history w"
  by (auto simp: get_cursor_position_def sys_write_def Let_def
      split: if_splits prod.splits option.splits)

lemma store_history: "store ho w = Ok u w' \<Longrightarrow> history w' = history w"
  by (auto simp: store_def split: option.splits)

lemma rl_read_line_history:
  assumes "rl_read_line lc buf bsize prompt w = Ok x w'"
  shows "\<exists>p. history w' = history w @ [p]"
  using assms
  by (auto simp: rl_read_line_def bind_Ok_iff Let_def
      split: if_splits option.splits
      dest!: print_prompt_history add_to_history_appends load_Ok store_history
        enable_raw_mode_history get_cursor_position_history edit_and_return_history)


lemma repaint_line_heap: "repaint_line r c p n w = Ok ok w' \<Longrightarrow> heap w' = heap w"
  by (auto simp: repaint_line_def bind_Ok_iff move_cursor_to_def sys_write_def
      split: if_splits dest!: load_Ok)

lemma on_arrow_up_down_heap: "on_arrow_up_down key f w = Ok c w' \<Longrightarrow> heap w' = heap w"
  by (auto simp: on_arrow_up_down_def bind_Ok_iff Let_def
      split: if_splits dest!: load_Ok repaint_line_heap)

text \<open>
  Claim C5. Whenever a call of \<^verbatim>\<open>rl_read_line\<close> returns, whatever the result
  (\<^verbatim>\<open>RL_SUCCESS\<close>, \<^verbatim>\<open>RL_EOF\<close> or \<^verbatim>\<open>RL_SIGINT\<close>), the history vector is the one
  from before the call with one address appended: it is longer by exactly one and the
  entries it had are in their places. A round of the loop for Arrow-Up or Arrow-Down leaves
  the vector and every line as they are: of the history it changes only
  \<open>history_index\<close>.
\<close>

theorem history_grows_by_one:
  "(\<forall>r buf' w'. rl_read_line lc buf bsize prompt w = Ok (r, buf') w' \<longrightarrow>
      (\<exists>p. history w' = history w @ [p]) \<and> length (history w') = length (history w) + 1) \<and>
   (\<forall>key f v c v'. (key = KEY_ARROW_UP \<or> key = KEY_ARROW_DOWN) \<and> loop_body key f v = Ok c v' \<longrightarrow>
      history v' = history v \<and> heap v' = heap v)"
proof (intro conjI allI impI)
  fix r buf' w'
  assume "rl_read_line lc buf bsize prompt w = Ok (r, buf') w'"
  from rl_read_line_history [OF this] show "\<exists>p. history w' = history w @ [p]" .
  then show "length (history w') = length (history w) + 1" by auto
next
  fix key f and v :: "'b world" and c v'
  assume a: "(key = KEY_ARROW_UP \<or> key = KEY_ARROW_DOWN) \<and> loop_body key f v = Ok c v'"
  then have o: "on_arrow_up_down key f v = Ok c v'"
    using loop_body_arrow_up loop_body_arrow_down by metis
  show "history v' = history v"
    using on_arrow_up_down_kept [OF o] by (simp add: kept_def)
  show "heap v' = heap v"
    using on_arrow_up_down_heap [OF o] .
qed

text \<open>
  A terminal that answers the cursor position request with row 5 and column 3, and a C
  library whose \<^verbatim>\<open>sscanf\<close> reads these two numbers.
\<close>

definition cpr_reply :: "rd list" where
  "cpr_reply = map Byte (ESC # ''[5;3R'')"

definition libc0 :: "bool libc" where
  "libc0 = \<lparr>raw_attrs = (\<lambda>t. True), sscanf_hu_hu = (\<lambda>s. Some (5, 3))\<rparr>"

lemmas call_defs = rl_read_line_def print_prompt_def add_to_history_def sys_malloc_def
  vector_push_def vector_length_def enable_raw_mode_def sys_tcgetattr_def
  get_cursor_position_def read_cpr.simps ESC_def cpr_reply_def libc0_def end_defs loop_defs
  dec.simps read_csi_def read_csi_num_def read_ss3_def

theorem history_grows_by_one_witness:
  "rl_read_line libc0 ''zzzz'' 4 None (idle\<lparr>reads := cpr_reply @ [Byte (CHR 0x03)]\<rparr>) =
     Ok (RL_SIGINT, ''zzzz'')
        (idle\<lparr>raw_mode_enabled := True, history := [0], heap := [NUL # ''zzz''],
              out := CHR 0x1B # ''[6n''\<rparr>) \<and>
   history (idle\<lparr>raw_mode_enabled := True, history := [0], heap := [NUL # ''zzz''],
              out := CHR 0x1B # ''[6n''\<rparr>) =
     history (idle\<lparr>reads := cpr_reply @ [Byte (CHR 0x03)]\<rparr>) @ [0]"
proof -
  have r: "rl_read_line libc0 ''zzzz'' 4 None (idle\<lparr>reads := cpr_reply @ [Byte (CHR 0x03)]\<rparr>) =
     Ok (RL_SIGINT, ''zzzz'')
        (idle\<lparr>raw_mode_enabled := True, history := [0], heap := [NUL # ''zzz''],
              out := CHR 0x1B # ''[6n''\<rparr>)"
    by (simp add: call_defs idle_def)
  from history_grows_by_one [of libc0 "''zzzz''" 4 None "idle\<lparr>reads := cpr_reply @ [Byte (CHR 0x03)]\<rparr>"] r
  have "\<exists>p. history (idle\<lparr>raw_mode_enabled := True, history := [0], heap := [NUL # ''zzz''],
              out := CHR 0x1B # ''[6n''\<rparr>) =
     history (idle\<lparr>reads := cpr_reply @ [Byte (CHR 0x03)]\<rparr>) @ [p]"
    by blast
  then have "history (idle\<lparr>raw_mode_enabled := True, history := [0], heap := [NUL # ''zzz''],
              out := CHR 0x1B # ''[6n''\<rparr>) =
     history (idle\<lparr>reads := cpr_reply @ [Byte (CHR 0x03)]\<rparr>) @ [0]"
    by (simp add: idle_def)
  with r show ?thesis by blast
qed

subsection \<open>The terminal mode over a whole call\<close>

text \<open>
  The terminal attributes \<open>t0\<close> of before the call, and \<open>T\<close>: no \<^verbatim>\<open>tcsetattr\<close> of the
  call fails. \<open>cooked\<close> holds before raw mode is enabled: the terminal has the attributes
  \<open>t0\<close>, and if \<^verbatim>\<open>raw_mode_enabled\<close> is still set from an earlier call, \<open>t0\<close> is what
  \<^verbatim>\<open>original_state\<close> holds. \<open>raw_inv\<close> holds inside the loop. \<open>restored\<close> is what an exit
  through \<^verbatim>\<open>die\<close> gives.
\<close>

definition restored :: "bool \<Rightarrow> 'tm \<Rightarrow> halt \<Rightarrow> 'tm world \<Rightarrow> bool" where
  "restored T t0 h w \<longleftrightarrow> ((\<exists>m. h = Exited m) \<longrightarrow> T \<longrightarrow> tty w = t0)"

definition cooked :: "bool \<Rightarrow> 'tm \<Rightarrow> 'tm world \<Rightarrow> bool" where
  "cooked T t0 w \<longleftrightarrow>
     tty w = t0 \<and> (raw_mode_enabled w \<longrightarrow> original_state w = t0) \<and>
     (T \<longrightarrow> False \<notin> set (tcsets w))"

definition raw_inv :: "bool \<Rightarrow> 'tm \<Rightarrow> 'tm world \<Rightarrow> bool" where
  "raw_inv T t0 w \<longleftrightarrow>
     raw_mode_enabled w \<and> original_state w = t0 \<and> (T \<longrightarrow> False \<notin> set (tcsets w))"

lemma restored_simps [simp]:
  "restored T t0 Undefined w" "restored T t0 Aborted w" "restored T t0 Starved w"
  by (simp_all add: restored_def)

lemma post_die_cooked:
  "cooked T t0 w \<Longrightarrow> post Q (restored T t0) (die msg w :: ('a, 'tm world) res)"
  by (cases T) (simp_all add: post_die cooked_def restored_def)

lemma post_die_raw:
  "raw_inv T t0 w \<Longrightarrow> post Q (restored T t0) (die msg w :: ('a, 'tm world) res)"
  by (cases T) (simp_all add: post_die raw_inv_def restored_def)

lemma cooked_io [simp]:
  "cooked T t0 (w\<lparr>out := a\<rparr>) = cooked T t0 w" "cooked T t0 (w\<lparr>writes := b\<rparr>) = cooked T t0 w"
  "cooked T t0 (w\<lparr>reads := c\<rparr>) = cooked T t0 w" "cooked T t0 (w\<lparr>heap := d\<rparr>) = cooked T t0 w"
  "cooked T t0 (w\<lparr>history := e\<rparr>) = cooked T t0 w"
  "cooked T t0 (w\<lparr>history_index := i\<rparr>) = cooked T t0 w"
  "cooked T t0 (w\<lparr>mallocs := g\<rparr>) = cooked T t0 w"
  "cooked T t0 (w\<lparr>tcgets := k\<rparr>) = cooked T t0 w"
  by (simp_all add: cooked_def)

lemma raw_inv_io [simp]:
  "raw_inv T t0 (w\<lparr>out := a\<rparr>) = raw_inv T t0 w" "raw_inv T t0 (w\<lparr>writes := b\<rparr>) = raw_inv T t0 w"
  "raw_inv T t0 (w\<lparr>reads := c\<rparr>) = raw_inv T t0 w" "raw_inv T t0 (w\<lparr>heap := d\<rparr>) = raw_inv T t0 w"
  "raw_inv T t0 (w\<lparr>history := e\<rparr>) = raw_inv T t0 w"
  "raw_inv T t0 (w\<lparr>history_index := i\<rparr>) = raw_inv T t0 w"
  by (simp_all add: raw_inv_def)

lemma disable_raw_mode_tty:
  "raw_inv T t0 w \<Longrightarrow> post (\<lambda>u w'. tty w' = t0) (restored T t0) (disable_raw_mode w)"
  by (cases T)
    (simp_all add: disable_raw_mode_def disable_raw_mode_with_def sys_tcsetattr_def post_die
      raw_inv_def restored_def)

lemma read_key_tty:
  "raw_inv T t0 w \<Longrightarrow> post (\<lambda>k w'. raw_inv T t0 w') (restored T t0) (read_key w)"
  by (auto simp: read_key_def post_die_raw raw_inv_def [of T t0 w]
      split: option.splits prod.splits)


definition loop_tty :: "bool \<Rightarrow> 'tm \<Rightarrow> ctl \<Rightarrow> 'tm world \<Rightarrow> bool" where
  "loop_tty T t0 c w =
     (case c of Continue f \<Rightarrow> raw_inv T t0 w | EndOfLoop f \<Rightarrow> raw_inv T t0 w
      | Return r \<Rightarrow> tty w = t0)"

lemma loop_tty_simps [simp]:
  "loop_tty T t0 (Continue f) w = raw_inv T t0 w"
  "loop_tty T t0 (EndOfLoop f) w = raw_inv T t0 w"
  "loop_tty T t0 (Return r) w = (tty w = t0)"
  by (simp_all add: loop_tty_def)

lemma post_option [simp]:
  "post Q E (case xo of None \<Rightarrow> r | Some x \<Rightarrow> k x) =
     (case xo of None \<Rightarrow> post Q E r | Some x \<Rightarrow> post Q E (k x))"
  by (cases xo) simp_all

lemma on_printable_tty:
  "raw_inv T t0 w \<Longrightarrow> post (loop_tty T t0) (restored T t0) (on_printable key f w)"
  by (simp add: on_printable_def shift_tail_def sys_write_def move_cursor_to_def Let_def
      post_die_raw split: option.splits)

lemma on_enter_tty:
  "raw_inv T t0 w \<Longrightarrow> post (loop_tty T t0) (restored T t0) (on_enter f w)"
  by (simp add: on_enter_def sys_write_def post_die_raw)

lemma on_ctrl_c_tty:
  "raw_inv T t0 w \<Longrightarrow> post (loop_tty T t0) (restored T t0) (on_ctrl_c f w)"
  using disable_raw_mode_tty [of T t0 w] by (simp add: on_ctrl_c_def)

lemma on_ctrl_d_tty:
  "raw_inv T t0 w \<Longrightarrow> post (loop_tty T t0) (restored T t0) (on_ctrl_d f w)"
  using disable_raw_mode_tty [of T t0 w] by (simp add: on_ctrl_d_def)

lemma on_backspace_tty:
  "raw_inv T t0 w \<Longrightarrow> post (loop_tty T t0) (restored T t0) (on_backspace f w)"
  by (simp add: on_backspace_def repaint_line_def sys_write_def move_cursor_to_def Let_def
      post_die_raw split: option.splits)

lemma on_arrow_up_down_tty:
  "raw_inv T t0 w \<Longrightarrow> post (loop_tty T t0) (restored T t0) (on_arrow_up_down key f w)"
  by (simp add: on_arrow_up_down_def repaint_line_def sys_write_def move_cursor_to_def Let_def
      post_die_raw split: option.splits)

lemma on_left_tty:
  "raw_inv T t0 w \<Longrightarrow> post (loop_tty T t0) (restored T t0) (on_left f w)"
  by (simp add: on_left_def move_cursor_left_def sys_write_def)

lemma on_right_tty:
  "raw_inv T t0 w \<Longrightarrow> post (loop_tty T t0) (restored T t0) (on_right f w)"
  by (simp add: on_right_def move_cursor_right_def sys_write_def)

lemma loop_body_tty:
  assumes "raw_inv T t0 w"
  shows "post (loop_tty T t0) (restored T t0) (loop_body key f w)"
proof (rule loop_body_cases)
  show "post (loop_tty T t0) (restored T t0) (Ok (Continue f) w)"
    using assms by simp
qed (rule on_printable_tty on_enter_tty on_ctrl_c_tty on_ctrl_d_tty on_backspace_tty
    on_arrow_up_down_tty on_left_tty on_right_tty assms)+

lemma loop_round_tty:
  assumes "raw_inv T t0 w"
  shows "post (loop_tty T t0) (restored T t0) (loop_round f w)"
  unfolding loop_round_def post_bind
  by (rule post_mono [OF read_key_tty [OF assms]]) (simp_all add: loop_body_tty)


lemma post_bindI:
  assumes "post P E m" and "\<And>a s. P a s \<Longrightarrow> post Q E (k a s)"
  shows "post Q E (bind m k)"
  using assms by (cases m) (simp_all add: bind_def)

lemma edit_loop_tty:
  fixes w :: "'tm world"
  assumes "raw_inv T t0 w"
  shows "post (loop_tty T t0) (restored T t0) (edit_loop f w)"
proof (rule edit_loop_rule [where I = "\<lambda>f (w :: 'tm world). raw_inv T t0 w"])
  show "raw_inv T t0 w" by (rule assms)
next
  fix f and v :: "'tm world"
  assume i: "raw_inv T t0 v"
  show "post (\<lambda>c w'. case c of Continue f' \<Rightarrow> raw_inv T t0 w'
              | EndOfLoop f' \<Rightarrow> loop_tty T t0 (EndOfLoop f') w'
              | Return r \<Rightarrow> loop_tty T t0 (Return r) w') (restored T t0) (loop_round f v)"
  proof (rule post_mono [OF loop_round_tty [OF i]])
    fix c and w' :: "'tm world"
    assume "loop_tty T t0 c w'"
    then show "case c of Continue f' \<Rightarrow> raw_inv T t0 w'
              | EndOfLoop f' \<Rightarrow> loop_tty T t0 (EndOfLoop f') w'
              | Return r \<Rightarrow> loop_tty T t0 (Return r) w'"
      by (cases c) simp_all
  qed
next
  fix f and v :: "'tm world"
  assume "raw_inv T t0 v"
  then show "loop_tty T t0 (EndOfLoop f) v" by simp
qed

lemma end_of_loop_tty:
  assumes "raw_inv T t0 w"
  shows "post (\<lambda>x w'. tty w' = t0) (restored T t0) (end_of_loop buf f w)"
  unfolding end_of_loop_def Let_def
  apply (rule post_bindI [where P = "\<lambda>u w'. raw_inv T t0 w'"])
   apply (simp add: assms split: option.splits)
  apply (rule post_bindI [where P = "\<lambda>u w'. raw_inv T t0 w'"])
   apply (simp split: option.splits)
  apply (rule post_bindI [where P = "\<lambda>u w'. raw_inv T t0 w'"])
   apply (simp split: option.splits)
  apply (rule post_bindI [OF disable_raw_mode_tty])
   apply assumption
  apply simp
  done

lemma edit_and_return_tty:
  assumes "raw_inv T t0 w"
  shows "post (\<lambda>x w'. tty w' = t0) (restored T t0) (edit_and_return buf f w)"
  unfolding edit_and_return_def
proof (rule post_bindI [OF edit_loop_tty [OF assms]])
  fix c and s :: "'a world"
  assume "loop_tty T t0 c s"
  then show "post (\<lambda>x w'. tty w' = t0) (restored T t0) (after_loop buf c s)"
    by (cases c) (simp_all add: after_loop_def end_of_loop_tty)
qed

lemma print_prompt_tty:
  "cooked T t0 w \<Longrightarrow> post (\<lambda>u w'. cooked T t0 w') (restored T t0) (print_prompt prompt w)"
  by (simp add: print_prompt_def sys_write_def post_die_cooked split: option.splits)

lemma add_to_history_tty:
  "cooked T t0 w \<Longrightarrow> post (\<lambda>u w'. cooked T t0 w') (restored T t0) (add_to_history buf n w)"
  by (simp add: add_to_history_def sys_malloc_def split: option.splits)

lemma enable_raw_mode_tty:
  "cooked T t0 w \<Longrightarrow> post (\<lambda>u w'. raw_inv T t0 w') (restored T t0) (enable_raw_mode lc w)"
  by (cases T)
    (simp_all add: enable_raw_mode_def sys_tcgetattr_def sys_tcsetattr_def Let_def post_die
      cooked_def raw_inv_def restored_def)

lemma get_cursor_position_tty:
  "raw_inv T t0 w \<Longrightarrow> post (\<lambda>u w'. raw_inv T t0 w') (restored T t0) (get_cursor_position lc w)"
  by (simp add: get_cursor_position_def sys_write_def Let_def split: prod.splits option.splits)

lemma rl_read_line_tty:
  assumes "cooked T t0 w"
  shows "post (\<lambda>x w'. tty w' = t0) (restored T t0) (rl_read_line lc buf bsize prompt w)"
proof (cases "bsize > 0")
  case False
  then show ?thesis by (simp add: rl_read_line_def)
next
  case True
  have tail: "post (\<lambda>x w'. tty w' = t0) (restored T t0)
      (bind (enable_raw_mode lc v) (\<lambda>u w6.
         bind (get_cursor_position lc w6) (\<lambda>pos w7.
           case pos of
             None \<Rightarrow> die ''failed to get cursor position'' w7
           | Some (row, col) \<Rightarrow>
               edit_and_return buf
                 \<lparr>buf_size = bsize, history_len = hlen, current_buf = cur,
                   cx = col, cy = row, cursor_pos = 0, num_chars = 0\<rparr> w7)))"
    if "cooked T t0 v" for v :: "'a world" and hlen cur
  proof (rule post_bindI [OF enable_raw_mode_tty [OF that]])
    fix u and w6 :: "'a world"
    assume r: "raw_inv T t0 w6"
    show "post (\<lambda>x w'. tty w' = t0) (restored T t0)
        (bind (get_cursor_position lc w6) (\<lambda>pos w7.
           case pos of
             None \<Rightarrow> die ''failed to get cursor position'' w7
           | Some (row, col) \<Rightarrow>
               edit_and_return buf
                 \<lparr>buf_size = bsize, history_len = hlen, current_buf = cur,
                   cx = col, cy = row, cursor_pos = 0, num_chars = 0\<rparr> w7))"
    proof (rule post_bindI [OF get_cursor_position_tty [OF r]])
      fix pos and w7 :: "'a world"
      assume "raw_inv T t0 w7"
      then show "post (\<lambda>x w'. tty w' = t0) (restored T t0)
          (case pos of
             None \<Rightarrow> die ''failed to get cursor position'' w7
           | Some (row, col) \<Rightarrow>
               edit_and_return buf
                 \<lparr>buf_size = bsize, history_len = hlen, current_buf = cur,
                   cx = col, cy = row, cursor_pos = 0, num_chars = 0\<rparr> w7)"
        by (cases pos) (auto simp: post_die_raw edit_and_return_tty)
    qed
  qed
  show ?thesis
    unfolding rl_read_line_def
    using True
    apply (simp del: post_bind)
    apply (rule post_bindI [OF print_prompt_tty [OF assms]])
    apply (rule post_bindI [OF add_to_history_tty])
     apply assumption
    apply (simp del: post_bind add: post_die_cooked Let_def)
    apply (rule impI)
    apply (rule post_bindI [where P = "\<lambda>u w'. cooked T t0 w'"])
     apply (simp split: option.splits)
    apply (rule post_bindI [where P = "\<lambda>u w'. cooked T t0 w'"])
     apply (simp split: option.splits)
    apply (rule tail)
    apply assumption
    done
qed


text \<open>
  Claim C9, as amended. Take a call of \<^verbatim>\<open>rl_read_line\<close> that starts with the terminal
  attributes \<open>tty w\<close>, where \<^verbatim>\<open>original_state\<close> holds these attributes if
  \<^verbatim>\<open>raw_mode_enabled\<close> is still set from an earlier call. Whenever the call returns
  (\<^verbatim>\<open>RL_SUCCESS\<close>, \<^verbatim>\<open>RL_EOF\<close> or \<^verbatim>\<open>RL_SIGINT\<close>), the terminal has the attributes it had
  before the call. Whenever the process exits through \<^verbatim>\<open>die\<close> and no \<^verbatim>\<open>tcsetattr\<close> of the
  call has failed, the terminal has the attributes it had before the call. When the
  \<^verbatim>\<open>tcsetattr\<close> that restores them fails, \<^verbatim>\<open>die\<close> tries once more and then exits, and the
  terminal may be left in raw mode.
\<close>

theorem terminal_mode_restored:
  fixes w :: "'tm world"
  assumes saved: "raw_mode_enabled w \<longrightarrow> original_state w = tty w"
  shows "(\<forall>r buf' w'. rl_read_line lc buf bsize prompt w = Ok (r, buf') w' \<longrightarrow> tty w' = tty w) \<and>
         (\<forall>m w'. rl_read_line lc buf bsize prompt w = Halt (Exited m) w' \<and>
                  False \<notin> set (tcsets w) \<longrightarrow> tty w' = tty w)"
proof -
  have "cooked (False \<notin> set (tcsets w)) (tty w) w"
    using saved by (simp add: cooked_def)
  then have p: "post (\<lambda>x w'. tty w' = tty w) (restored (False \<notin> set (tcsets w)) (tty w))
                  (rl_read_line lc buf bsize prompt w)"
    by (rule rl_read_line_tty)
  show ?thesis
  proof (cases "rl_read_line lc buf bsize prompt w")
    case (Ok x w')
    with p show ?thesis by simp
  next
    case (Halt h w')
    with p show ?thesis by (simp add: restored_def)
  qed
qed

text \<open>
  A read that fails with \<^verbatim>\<open>EIO\<close> in the loop: \<^verbatim>\<open>die\<close> restores the attributes and exits.
\<close>

theorem terminal_mode_restored_witness:
  "original_state (idle\<lparr>reads := cpr_reply @ [Eio], tcsets := [True, True]\<rparr>) =
     tty (idle\<lparr>reads := cpr_reply @ [Eio], tcsets := [True, True]\<rparr>) \<and>
   rl_read_line libc0 ''zzzz'' 4 None (idle\<lparr>reads := cpr_reply @ [Eio], tcsets := [True, True]\<rparr>) =
     Halt (Exited ''failed to read input'')
       (idle\<lparr>history := [0], heap := [NUL # ''zzz''], out := CHR 0x1B # ''[6n''\<rparr>) \<and>
   False \<notin> set (tcsets (idle\<lparr>reads := cpr_reply @ [Eio], tcsets := [True, True]\<rparr>)) \<and>
   tty (idle\<lparr>history := [0], heap := [NUL # ''zzz''], out := CHR 0x1B # ''[6n''\<rparr>) =
     tty (idle\<lparr>reads := cpr_reply @ [Eio], tcsets := [True, True]\<rparr>)"
proof -
  have r: "rl_read_line libc0 ''zzzz'' 4 None
             (idle\<lparr>reads := cpr_reply @ [Eio], tcsets := [True, True]\<rparr>) =
     Halt (Exited ''failed to read input'')
       (idle\<lparr>history := [0], heap := [NUL # ''zzz''], out := CHR 0x1B # ''[6n''\<rparr>)"
    by (simp add: call_defs die_def idle_def)
  have s: "raw_mode_enabled (idle\<lparr>reads := cpr_reply @ [Eio], tcsets := [True, True]\<rparr>) \<longrightarrow>
     original_state (idle\<lparr>reads := cpr_reply @ [Eio], tcsets := [True, True]\<rparr>) =
     tty (idle\<lparr>reads := cpr_reply @ [Eio], tcsets := [True, True]\<rparr>)"
    by (simp add: idle_def)
  have t: "False \<notin> set (tcsets (idle\<lparr>reads := cpr_reply @ [Eio], tcsets := [True, True]\<rparr>))"
    by simp
  from terminal_mode_restored [OF s, of libc0 "''zzzz''" 4 None] r t
  have "tty (idle\<lparr>history := [0], heap := [NUL # ''zzz''], out := CHR 0x1B # ''[6n''\<rparr>) =
     tty (idle\<lparr>reads := cpr_reply @ [Eio], tcsets := [True, True]\<rparr>)"
    by blast
  with r t show ?thesis by (simp add: idle_def)
qed

text \<open>
  Ctrl+C when both the \<^verbatim>\<open>tcsetattr\<close> of \<^verbatim>\<open>disable_raw_mode\<close> and the one \<^verbatim>\<open>die\<close> tries
  fail: the process exits with the terminal in raw mode.
\<close>

theorem terminal_mode_restored_counterexample:
  "rl_read_line libc0 ''zzzz'' 4 None
     (idle\<lparr>reads := cpr_reply @ [Byte (CHR 0x03)], tcsets := [True, False, False]\<rparr>) =
     Halt (Exited ''failed to disable raw mode (tcsetattr)'')
       (idle\<lparr>history := [0], heap := [NUL # ''zzz''], out := CHR 0x1B # ''[6n'',
             tty := raw_attrs libc0 (tty idle)\<rparr>) \<and>
   raw_attrs libc0 (tty idle) = True \<and> tty idle = False"
  by (simp add: call_defs die_def idle_def)

subsection \<open>Truncation into a smaller buffer\<close>

text \<open>
  The state after a first call with a buffer of 8 bytes in which \<^verbatim>\<open>abc\<close> and Enter were
  typed, and the state after a second call with a buffer of 3 bytes in which Arrow-Up was
  pressed.
\<close>

definition once :: "bool world" where
  "once = idle\<lparr>raw_mode_enabled := True, history := [0], heap := [''abc'' @ NUL # ''zzzz''],
     out := CHR 0x1B # ''[6nabc'' @ [CHR 0x0D, CHR 0x0A]\<rparr>"

definition twice :: "bool world" where
  "twice = once\<lparr>history := [0, 1], heap := [''abc'' @ NUL # ''zzzz'', ''abc''],
     out := out once @ CHR 0x1B # ''[6n'' @ CHR 0x1B # ''[5;3H'' @ CHR 0x1B # ''[Kabc''\<rparr>"

text \<open>
  Claim C1: a call that returns \<^verbatim>\<open>RL_SUCCESS\<close> leaves the submitted line in the caller's
  buffer as a null-terminated string, truncated to fit when its length is \<^verbatim>\<open>buf_size\<close> or
  more. The code does not do this when it truncates. The first call below, with 8 bytes,
  returns \<^verbatim>\<open>abc\<close> and its terminator. The second call, with 3 bytes, recalls this line
  with Arrow-Up: its length 3 is not less than \<^verbatim>\<open>buf_size\<close>, so the loop ends,
  \<^verbatim>\<open>num_chars_to_copy\<close> is \<^verbatim>\<open>buf_size\<close>, and \<^verbatim>\<open>memcpy\<close> fills the buffer with \<^verbatim>\<open>abc\<close> and
  no terminator. The call returns \<^verbatim>\<open>RL_SUCCESS\<close>; the entry it added to the history gets
  the same 3 bytes and is not terminated either.
\<close>

theorem truncated_line_is_not_terminated:
  "rl_read_line libc0 ''zzzzzzzz'' 8 None
     (idle\<lparr>reads := cpr_reply @ map Byte (''abc'' @ [CHR 0x0D])\<rparr>) =
     Ok (RL_SUCCESS, ''abc'' @ NUL # ''zzzz'') once \<and>
   rl_read_line libc0 ''zzz'' 3 None (once\<lparr>reads := cpr_reply @ map Byte (ESC # ''[A'')\<rparr>) =
     Ok (RL_SUCCESS, ''abc'') twice \<and>
   strlen (''abc'' @ NUL # ''zzzz'') = Some 3 \<and> strlen ''abc'' = None \<and>
   strlen (heap twice ! last (history twice)) = None"
  by (simp add: call_defs on_arrow_up_down_def once_def twice_def idle_def NUL_def)

text \<open>
  Claim C4: Arrow-Up away from the oldest entry moves \<open>history_index\<close> by one, makes that
  entry the live buffer and sets the length and the cursor offset to the length of the
  recalled entry. The code does not do this on an entry that the truncation above has left
  without a terminator. After the two calls above the entry at index 1 is the 3-byte block
  \<^verbatim>\<open>abc\<close>. In a third call Arrow-Up makes it the live buffer, and \<^verbatim>\<open>strlen\<close> reads beyond
  its 3 bytes: the length and the cursor offset have no defined value.
\<close>

theorem recalled_line_without_terminator:
  "rl_read_line libc0 ''zzzzzzzz'' 8 None
     (idle\<lparr>reads := cpr_reply @ map Byte (''abc'' @ [CHR 0x0D])\<rparr>) =
     Ok (RL_SUCCESS, ''abc'' @ NUL # ''zzzz'') once \<and>
   rl_read_line libc0 ''zzz'' 3 None (once\<lparr>reads := cpr_reply @ map Byte (ESC # ''[A'')\<rparr>) =
     Ok (RL_SUCCESS, ''abc'') twice \<and>
   history twice = [0, 1] \<and> heap twice ! 1 = ''abc'' \<and> strlen (heap twice ! 1) = None \<and>
   rl_read_line libc0 ''zzz'' 3 None (twice\<lparr>reads := cpr_reply @ map Byte (ESC # ''[A'')\<rparr>) =
     Halt Undefined
       (twice\<lparr>history := [0, 1, 2], history_index := 1,
              heap := [''abc'' @ NUL # ''zzzz'', ''abc'', NUL # ''zz''], tty := True,
              out := out twice @ CHR 0x1B # ''[6n''\<rparr>)"
  by (simp add: call_defs on_arrow_up_down_def once_def twice_def idle_def NUL_def)

subsection \<open>Lines of another size\<close>

text \<open>
  \<^verbatim>\<open>add_to_history\<close> gives each entry the \<^verbatim>\<open>buf_size\<close> of its own call, and the loop
  condition compares the length with the \<^verbatim>\<open>buf_size\<close> of the current call. \<open>small\<close> is the
  state after a first call with a buffer of 3 bytes in which \<^verbatim>\<open>ab\<close> was typed.
  \<open>recalled_small\<close> and \<open>on_small\<close> are the state and the locals of a second call, with a
  buffer of 8 bytes, after Arrow-Up: the live buffer is the block of 3 bytes. \<open>overrun\<close>
  is the state in which the insertion of \<^verbatim>\<open>X\<close> there stops.
\<close>

definition small :: "bool world" where
  "small = idle\<lparr>raw_mode_enabled := True, history := [0], heap := [''ab'' @ [NUL]],
     out := CHR 0x1B # ''[6nab''\<rparr>"

definition recalled_small :: "bool world" where
  "recalled_small = small\<lparr>history := [0, 1], heap := [''ab'' @ [NUL], NUL # ''zzzzzzz''],
     tty := True,
     out := out small @ CHR 0x1B # ''[6n'' @ CHR 0x1B # ''[5;3H'' @ CHR 0x1B # ''[Kab''\<rparr>"

definition on_small :: frame where
  "on_small = \<lparr>buf_size = 8, history_len = 2, current_buf = 0, cx = 3, cy = 5,
     cursor_pos = 2, num_chars = 2\<rparr>"

definition overrun :: "bool world" where
  "overrun = recalled_small\<lparr>heap := [''abX'', NUL # ''zzzzzzz''],
     out := out recalled_small @ ''X''\<rparr>"

text \<open>
  Claim C7: every operation of the edit loop keeps the invariant of the line buffer (the
  length below the capacity, the cursor between 0 and the length, the terminator at the
  length). The insertion does not keep it on a recalled line of a smaller block. The
  second call, waiting for its next key after Arrow-Up, is in \<open>recalled_small\<close> with the
  locals \<open>on_small\<close>: the invariant holds (length 2 in a block of 3 bytes) and the loop
  condition \<open>2 < 8 - 1\<close> is true. The printable key \<^verbatim>\<open>X\<close> is stored at index 2, the
  length becomes 3, the capacity of the block, and the terminator is written at index 3,
  beyond the block.
\<close>

theorem insertion_overruns_recalled_line:
  "rl_read_line libc0 ''zzz'' 3 None (idle\<lparr>reads := cpr_reply @ map Byte ''ab''\<rparr>) =
     Ok (RL_SUCCESS, ''ab'' @ [NUL]) small \<and>
   rl_read_line libc0 ''zzzzzzzz'' 8 None
     (small\<lparr>reads := cpr_reply @ map Byte (ESC # ''[A'')\<rparr>) = Halt Starved recalled_small \<and>
   line_inv on_small recalled_small \<and> num_chars on_small < buf_size on_small - 1 \<and>
   length (heap recalled_small ! current_buf on_small) = 3 \<and>
   loop_body 88 on_small recalled_small = Halt Undefined overrun \<and>
   rl_read_line libc0 ''zzzzzzzz'' 8 None
     (small\<lparr>reads := cpr_reply @ map Byte (ESC # ''[AX'')\<rparr>) = Halt Undefined overrun"
  by (simp add: call_defs on_arrow_up_down_def line_inv_def small_def recalled_small_def
      on_small_def overrun_def idle_def NUL_def)


end
